theory Spec2Isabelle
  imports Complex_Main "HOL-Library.Word"
begin

section \<open>Strings\<close>

text \<open>
  The program is TypeScript: a string is a sequence of UTF-16 code units, and every
  string operation of the source (\<^verbatim>\<open>includes\<close>, \<^verbatim>\<open>split\<close>, \<^verbatim>\<open>trim\<close>, the regular
  expressions without the \<^verbatim>\<open>u\<close> flag) works on code units.  The glyphs the program
  looks for are U+26D4 (no entry, one unit), U+2B50 (star, one unit) and U+1F194
  (squared ID, the surrogate pair D83C DD94).
\<close>

type_synonym jschar = "16 word"
type_synonym jsstring = "jschar list"

definition str :: "string \<Rightarrow> jsstring" where
  "str s = map (\<lambda>c. of_nat (of_char c)) s"

section \<open>Data model (src/types/settings.ts and the fields the source reads)\<close>

datatype TaskStatus = st_todo | st_in_progress | st_done | st_canceled

datatype TaskType = type_inline | type_note

datatype LayoutDirection = Horizontal | Vertical

datatype LinkingStyle = individual | csv | dataview

datatype TagColorMode = mode_random | mode_static

datatype Position = Position_Left | Position_Right | Position_Top | Position_Bottom

record Task =
  t_id :: jsstring
  t_type :: TaskType
  t_summary :: jsstring
  t_text :: jsstring
  t_tags :: "jsstring list"
  t_status :: TaskStatus
  t_priority :: jsstring
  t_link :: jsstring
  t_incomingLinks :: "jsstring list"
  t_starred :: bool
  t_line :: "nat option"

record XYPosition =
  pos_x :: real
  pos_y :: real

record TasksMapSettings =
  showPriorities :: bool
  showTags :: bool
  layoutDirection :: LayoutDirection
  linkingStyle :: LinkingStyle
  debugVisualization :: bool
  tagColorMode :: TagColorMode
  tagColorSeed :: real
  tagStaticColor :: jsstring

text \<open>
  \<^verbatim>\<open>TaskNodeData\<close> of src/components/task-node.tsx. The type declares \<^verbatim>\<open>task\<close> as
  mandatory, but the view reads it as \<^verbatim>\<open>node.data?.task\<close> and guards against its
  absence, so the model keeps it optional.
\<close>

record TaskNodeData =
  d_task :: "Task option"
  d_layoutDirection :: LayoutDirection
  d_showPriorities :: bool
  d_showTags :: bool
  d_debugVisualization :: bool
  d_tagColorMode :: TagColorMode
  d_tagColorSeed :: real
  d_tagStaticColor :: jsstring

text \<open>
  A canvas node. The record is extensible: every further field a reactflow node may
  carry lives in the \<open>more\<close> part, which the object spread \<^verbatim>\<open>{...node, ...}\<close> copies.
\<close>

record TaskNode =
  n_id :: jsstring
  n_position :: XYPosition
  n_data :: TaskNodeData
  n_type :: jsstring
  n_sourcePosition :: Position
  n_targetPosition :: Position
  n_draggable :: bool
  n_hidden :: "bool option"

record TaskEdgeData =
  ed_hash :: jsstring
  ed_layoutDirection :: LayoutDirection
  ed_debugVisualization :: bool

record TaskEdge =
  e_id :: jsstring
  e_source :: jsstring
  e_target :: jsstring
  e_type :: jsstring
  e_data :: TaskEdgeData
  e_hidden :: "bool option"

text \<open>
  The persisted snapshot. \<^verbatim>\<open>taskData\<close> is optional in \<^verbatim>\<open>SavedNodeData\<close>; on load it is
  cast to \<^verbatim>\<open>Task\<close> unchanged, so the model stores a \<^typ>\<open>Task\<close>.
\<close>

record SavedNodeData =
  sn_id :: jsstring
  sn_position :: XYPosition
  sn_taskId :: jsstring
  sn_taskData :: "Task option"

record SavedEdgeData =
  se_id :: jsstring
  se_source :: jsstring
  se_target :: jsstring

record SavedViewport =
  vp_x :: real
  vp_y :: real
  vp_zoom :: real

record GraphData =
  g_nodes :: "SavedNodeData list"
  g_edges :: "SavedEdgeData list"
  g_viewport :: SavedViewport

section \<open>Graph builder (src/lib/utils.ts)\<close>

text \<open>\<^verbatim>\<open>createEdgesFromTasks\<close>: the two nested \<^verbatim>\<open>forEach\<close> loops push one edge per entry.\<close>

definition mkEdge :: "LayoutDirection \<Rightarrow> bool \<Rightarrow> Task \<Rightarrow> jsstring \<Rightarrow> TaskEdge" where
  "mkEdge ld dv task parentTaskId =
     \<lparr> e_id = parentTaskId @ str ''-'' @ t_id task,
       e_source = parentTaskId,
       e_target = t_id task,
       e_type = str ''hash'',
       e_data = \<lparr> ed_hash = parentTaskId @ str ''-'' @ t_id task,
                  ed_layoutDirection = ld,
                  ed_debugVisualization = dv \<rparr>,
       e_hidden = None \<rparr>"

fun createEdgesFromTasks :: "Task list \<Rightarrow> LayoutDirection \<Rightarrow> bool \<Rightarrow> TaskEdge list" where
  "createEdgesFromTasks [] ld dv = []"
| "createEdgesFromTasks (task # tasks) ld dv =
     map (mkEdge ld dv task) (t_incomingLinks task) @ createEdgesFromTasks tasks ld dv"

section \<open>Layout adapter (src/lib/utils.ts, src/components/task-node.tsx)\<close>

definition NODEWIDTH :: real where
  "NODEWIDTH = 250"

definition NODEHEIGHT :: real where
  "NODEHEIGHT = 120"

text \<open>
  \<^verbatim>\<open>getLayoutedElements\<close>. The layout itself is the external dagre library; the model
  takes what \<^verbatim>\<open>dagreGraph.node(id)\<close> answers after \<^verbatim>\<open>dagre.layout\<close> as the parameter
  \<open>dagreNode\<close> (\<open>None\<close> for \<^verbatim>\<open>undefined\<close>). Coordinates are JavaScript numbers, read
  here as reals.
\<close>

definition layoutNode :: "(jsstring \<Rightarrow> XYPosition option) \<Rightarrow> 'a TaskNode_scheme \<Rightarrow> 'a TaskNode_scheme" where
  "layoutNode dagreNode node =
     (case dagreNode (n_id node) of
        None \<Rightarrow> node\<lparr> n_position := \<lparr> pos_x = 0, pos_y = 0 \<rparr> \<rparr>
      | Some nodeWithPosition \<Rightarrow>
          node\<lparr> n_position := \<lparr> pos_x = pos_x nodeWithPosition - 90,
                                 pos_y = pos_y nodeWithPosition - 30 \<rparr> \<rparr>)"

definition getLayoutedElements ::
  "(jsstring \<Rightarrow> XYPosition option) \<Rightarrow> 'a TaskNode_scheme list \<Rightarrow> 'a TaskNode_scheme list" where
  "getLayoutedElements dagreNode nodes = map (layoutNode dagreNode) nodes"

section \<open>The canvas (src/views/TaskMapGraphView.tsx)\<close>

text \<open>
  The React state of the view that the operations below read and write, together with
  the plugin's \<^verbatim>\<open>graphData\<close> (src/main.tsx), passed explicitly.
\<close>

record Canvas =
  c_nodes :: "TaskNode list"
  c_edges :: "TaskEdge list"
  c_tasks :: "Task list"
  c_viewport :: SavedViewport
  c_graphData :: GraphData

definition handlePositions :: "TasksMapSettings \<Rightarrow> Position \<times> Position" where
  "handlePositions settings =
     (if layoutDirection settings = Vertical
      then (Position_Bottom, Position_Top) else (Position_Right, Position_Left))"

definition nodeData :: "TasksMapSettings \<Rightarrow> Task \<Rightarrow> TaskNodeData" where
  "nodeData settings task =
     \<lparr> d_task = Some task,
       d_layoutDirection = layoutDirection settings,
       d_showPriorities = showPriorities settings,
       d_showTags = showTags settings,
       d_debugVisualization = debugVisualization settings,
       d_tagColorMode = tagColorMode settings,
       d_tagColorSeed = tagColorSeed settings,
       d_tagStaticColor = tagStaticColor settings \<rparr>"

definition mkNode :: "TasksMapSettings \<Rightarrow> jsstring \<Rightarrow> XYPosition \<Rightarrow> Task \<Rightarrow> TaskNode" where
  "mkNode settings ident position task =
     \<lparr> n_id = ident,
       n_position = position,
       n_data = nodeData settings task,
       n_type = str ''task'',
       n_sourcePosition = fst (handlePositions settings),
       n_targetPosition = snd (handlePositions settings),
       n_draggable = True,
       n_hidden = None \<rparr>"

text \<open>
  \<^verbatim>\<open>loadSavedData\<close>: nothing happens on an empty snapshot; otherwise the saved nodes that
  carry task data become the canvas nodes, the saved edges the canvas edges, and the
  saved viewport is set (the source defers that by 100 ms).
\<close>

definition restoreNodes :: "TasksMapSettings \<Rightarrow> SavedNodeData list \<Rightarrow> TaskNode list" where
  "restoreNodes settings saved =
     concat (map (\<lambda>savedNode.
        case sn_taskData savedNode of
          None \<Rightarrow> []
        | Some taskData \<Rightarrow> [mkNode settings (sn_id savedNode) (sn_position savedNode) taskData])
      saved)"

definition restoreEdge :: "TasksMapSettings \<Rightarrow> SavedEdgeData \<Rightarrow> TaskEdge" where
  "restoreEdge settings e =
     \<lparr> e_id = se_id e,
       e_source = se_source e,
       e_target = se_target e,
       e_type = str ''hash'',
       e_data = \<lparr> ed_hash = se_id e,
                  ed_layoutDirection = layoutDirection settings,
                  ed_debugVisualization = debugVisualization settings \<rparr>,
       e_hidden = None \<rparr>"

definition loadSavedData :: "TasksMapSettings \<Rightarrow> Canvas \<Rightarrow> Canvas" where
  "loadSavedData settings c =
     (let savedData = c_graphData c in
      if g_nodes savedData = [] then c
      else c\<lparr> c_nodes := restoreNodes settings (g_nodes savedData),
              c_edges := map (restoreEdge settings) (g_edges savedData),
              c_viewport := g_viewport savedData \<rparr>)"

text \<open>
  \<^verbatim>\<open>loadInitialData\<close>: the freshly parsed tasks (\<^verbatim>\<open>getAllTasks(app)\<close>, a parameter here)
  become the task state, then the snapshot is loaded.
\<close>

definition loadInitialData :: "TasksMapSettings \<Rightarrow> Task list \<Rightarrow> Canvas \<Rightarrow> Canvas" where
  "loadInitialData settings newTasks c = loadSavedData settings (c\<lparr> c_tasks := newTasks \<rparr>)"

text \<open>
  \<^verbatim>\<open>updateNodes\<close> (the refresh): \<open>scannedTasks\<close> is the result of
  \<^verbatim>\<open>scanTasksFromFiles\<close>. \<^verbatim>\<open>Array.prototype.find\<close> answers the first task with the
  node's id.
\<close>

definition updateNode :: "Task list \<Rightarrow> 'a TaskNode_scheme \<Rightarrow> 'a TaskNode_scheme" where
  "updateNode scannedTasks node =
     (case d_task (n_data node) of
        None \<Rightarrow> node
      | Some nodeTask \<Rightarrow>
          (case find (\<lambda>t. t_id t = n_id node) scannedTasks of
             Some updatedTask \<Rightarrow> node\<lparr> n_data := (n_data node)\<lparr> d_task := Some updatedTask \<rparr> \<rparr>
           | None \<Rightarrow> node))"

definition updateNodes :: "Task list \<Rightarrow> Canvas \<Rightarrow> Canvas" where
  "updateNodes scannedTasks c =
     c\<lparr> c_tasks := scannedTasks, c_nodes := map (updateNode scannedTasks) (c_nodes c) \<rparr>"

text \<open>
  \<^verbatim>\<open>addTaskToCanvas\<close> is a \<^verbatim>\<open>useCallback\<close> over \<^verbatim>\<open>tasks\<close> and \<^verbatim>\<open>nodes\<close>. The lookup of
  the task, and the test whether a node with its id is on the canvas already, read the
  values those two had at the render that created the callback: the parameters \<open>tasks\<close>
  and \<open>nodes\<close>. The new node is appended by a functional update,
  \<^verbatim>\<open>setNodes((nds) => [...nds, newNode])\<close>, to the node state as it is when the update
  runs. An unknown task, and a task whose id is found among \<open>nodes\<close>, change nothing.
\<close>

definition resolveTask :: "Task list \<Rightarrow> jsstring \<Rightarrow> Task option \<Rightarrow> Task option" where
  "resolveTask tasks taskId taskData =
     (case find (\<lambda>t. t_id t = taskId) tasks of Some t \<Rightarrow> Some t | None \<Rightarrow> taskData)"

definition addTaskToCanvas ::
  "TasksMapSettings \<Rightarrow> Task list \<Rightarrow> TaskNode list \<Rightarrow> jsstring \<Rightarrow> XYPosition \<Rightarrow> Task option
     \<Rightarrow> Canvas \<Rightarrow> Canvas" where
  "addTaskToCanvas settings tasks nodes taskId position taskData c =
     (case resolveTask tasks taskId taskData of
        None \<Rightarrow> c
      | Some task \<Rightarrow>
          if list_ex (\<lambda>n. n_id n = t_id task) nodes then c
          else c\<lparr> c_nodes := c_nodes c @ [mkNode settings (t_id task) position task] \<rparr>)"

text \<open>\<^verbatim>\<open>deleteNode\<close>: the node and every edge touching it are filtered out.\<close>

definition deleteNode :: "jsstring \<Rightarrow> Canvas \<Rightarrow> Canvas" where
  "deleteNode nodeId c =
     c\<lparr> c_nodes := filter (\<lambda>n. n_id n \<noteq> nodeId) (c_nodes c),
        c_edges := filter (\<lambda>e. e_source e \<noteq> nodeId \<and> e_target e \<noteq> nodeId) (c_edges c) \<rparr>"

text \<open>
  \<^verbatim>\<open>saveGraphDataImmediate\<close> followed by \<^verbatim>\<open>plugin.saveGraphData\<close>. The nodes and edges that
  are saved are \<^verbatim>\<open>nodesRef.current\<close> and \<^verbatim>\<open>edgesRef.current\<close>, the parameters
  \<open>currentNodes\<close> and \<open>currentEdges\<close>. Nothing is saved when there is no node; otherwise
  the snapshot is replaced by these nodes and edges and the viewport.
\<close>

definition saveNode :: "TaskNode \<Rightarrow> SavedNodeData" where
  "saveNode n =
     \<lparr> sn_id = n_id n, sn_position = n_position n, sn_taskId = n_id n,
       sn_taskData = d_task (n_data n) \<rparr>"

definition saveEdge :: "TaskEdge \<Rightarrow> SavedEdgeData" where
  "saveEdge e = \<lparr> se_id = e_id e, se_source = e_source e, se_target = e_target e \<rparr>"

definition saveGraphDataImmediate :: "TaskNode list \<Rightarrow> TaskEdge list \<Rightarrow> Canvas \<Rightarrow> Canvas" where
  "saveGraphDataImmediate currentNodes currentEdges c =
     (if currentNodes = [] then c
      else c\<lparr> c_graphData :=
                \<lparr> g_nodes = map saveNode currentNodes,
                  g_edges = map saveEdge currentEdges,
                  g_viewport = c_viewport c \<rparr> \<rparr>)"

text \<open>
  The filter effect (\<^verbatim>\<open>useEffect\<close> on tasks, selected tags and selected statuses) with
  \<^verbatim>\<open>getFilteredNodeIds\<close>. \<^verbatim>\<open>NO_TAGS_VALUE\<close> is a constant of src/components/tag-select,
  whose value is not known here; it is the parameter \<open>noTags\<close>.
\<close>

definition matchesTagFilter :: "jsstring \<Rightarrow> jsstring list \<Rightarrow> Task \<Rightarrow> bool" where
  "matchesTagFilter noTags selectedTags task =
     (let noTagsSelected = List.member selectedTags noTags;
          regularTagsSelected = filter (\<lambda>tag. tag \<noteq> noTags) selectedTags;
          matchesNoTags = (noTagsSelected \<and> t_tags task = []);
          matchesRegularTags = (regularTagsSelected \<noteq> [] \<and>
              list_ex (\<lambda>tag. List.member (t_tags task) tag) regularTagsSelected)
      in matchesNoTags \<or> matchesRegularTags)"

definition getFilteredNodeIds ::
  "jsstring \<Rightarrow> Task list \<Rightarrow> jsstring list \<Rightarrow> TaskStatus list \<Rightarrow> jsstring list" where
  "getFilteredNodeIds noTags tasks selectedTags selectedStatuses =
     (let filtered1 = (if selectedTags \<noteq> [] then filter (matchesTagFilter noTags selectedTags) tasks
                       else tasks);
          filtered2 = (if selectedStatuses \<noteq> []
                       then filter (\<lambda>task. List.member selectedStatuses (t_status task)) filtered1
                       else filtered1)
      in map t_id filtered2)"

definition filterNode ::
  "jsstring \<Rightarrow> Task list \<Rightarrow> jsstring list \<Rightarrow> TaskStatus list \<Rightarrow> TaskNode \<Rightarrow> TaskNode" where
  "filterNode noTags tasks selectedTags selectedStatuses node =
     (let hasTagFilter = (selectedTags \<noteq> []);
          hasStatusFilter = (length selectedStatuses < 4)
      in if \<not> List.member (map t_id tasks) (n_id node) then
           (case d_task (n_data node) of
              Some nodeTask \<Rightarrow>
                (let passesStatusFilter =
                       (\<not> hasStatusFilter \<or> List.member selectedStatuses (t_status nodeTask));
                     passesTagFilter =
                       (\<not> hasTagFilter
                        \<or> (List.member selectedTags noTags \<and> t_tags nodeTask = [])
                        \<or> list_ex (\<lambda>tag. tag \<noteq> noTags \<and> List.member (t_tags nodeTask) tag)
                             selectedTags)
                 in node\<lparr> n_hidden := Some (\<not> (passesStatusFilter \<and> passesTagFilter)) \<rparr>)
            | None \<Rightarrow> node\<lparr> n_hidden := Some False \<rparr>)
         else node\<lparr> n_hidden := Some (\<not> List.member
                  (getFilteredNodeIds noTags tasks selectedTags selectedStatuses) (n_id node)) \<rparr>)"

definition applyFilters :: "jsstring \<Rightarrow> jsstring list \<Rightarrow> TaskStatus list \<Rightarrow> Canvas \<Rightarrow> Canvas" where
  "applyFilters noTags selectedTags selectedStatuses c =
     (if c_tasks c = [] \<or> c_nodes c = [] then c
      else if \<not> (selectedTags \<noteq> []) \<and> \<not> (length selectedStatuses < 4) then
        c\<lparr> c_nodes := map (\<lambda>node. node\<lparr> n_hidden := Some False \<rparr>) (c_nodes c),
           c_edges := map (\<lambda>edge. edge\<lparr> e_hidden := Some False \<rparr>) (c_edges c) \<rparr>
      else
        (let filteredNodeIds = getFilteredNodeIds noTags (c_tasks c) selectedTags selectedStatuses
         in c\<lparr> c_nodes := map (filterNode noTags (c_tasks c) selectedTags selectedStatuses) (c_nodes c),
               c_edges := map (\<lambda>edge. edge\<lparr> e_hidden :=
                              Some (\<not> List.member filteredNodeIds (e_source edge)
                                    \<or> \<not> List.member filteredNodeIds (e_target edge)) \<rparr>)
                            (c_edges c) \<rparr>))"

text \<open>
  The view between two renders. \<open>v_canvas\<close> is the React state, which a functional
  update receives, together with the plugin's snapshot. \<open>v_tasks\<close>, \<open>v_nodes\<close> and
  \<open>v_edges\<close> are the values that \<^verbatim>\<open>tasks\<close>, \<^verbatim>\<open>nodes\<close> and \<^verbatim>\<open>edges\<close> had at the last render:
  the callbacks which that render created read them, and the effects of the render store
  the last two in \<^verbatim>\<open>nodesRef.current\<close> and \<^verbatim>\<open>edgesRef.current\<close>. A render brings the three
  up to the state.
\<close>

record View =
  v_canvas :: Canvas
  v_tasks :: "Task list"
  v_nodes :: "TaskNode list"
  v_edges :: "TaskEdge list"

definition render :: "View \<Rightarrow> View" where
  "render v =
     v\<lparr> v_tasks := c_tasks (v_canvas v),
        v_nodes := c_nodes (v_canvas v),
        v_edges := c_edges (v_canvas v) \<rparr>"

text \<open>
  The operations that set the canvas nodes or the snapshot, as one step function on the
  view. The load, the refresh and the deletion set the state by functional updates or
  by a value that does not depend on it; the addition and the save read what the last
  render left; the filter effect runs after a render.
\<close>

datatype CanvasOp =
    OpRender
  | OpLoadSavedData
  | OpUpdateNodes "Task list"
  | OpAddTaskToCanvas jsstring XYPosition "Task option"
  | OpDeleteNode jsstring
  | OpSave
  | OpApplyFilters "jsstring list" "TaskStatus list"

fun canvasStep :: "TasksMapSettings \<Rightarrow> jsstring \<Rightarrow> CanvasOp \<Rightarrow> View \<Rightarrow> View" where
  "canvasStep settings noTags OpRender v = render v"
| "canvasStep settings noTags OpLoadSavedData v =
     v\<lparr> v_canvas := loadSavedData settings (v_canvas v) \<rparr>"
| "canvasStep settings noTags (OpUpdateNodes scanned) v =
     v\<lparr> v_canvas := updateNodes scanned (v_canvas v) \<rparr>"
| "canvasStep settings noTags (OpAddTaskToCanvas taskId position taskData) v =
     v\<lparr> v_canvas := addTaskToCanvas settings (v_tasks v) (v_nodes v) taskId position taskData
                       (v_canvas v) \<rparr>"
| "canvasStep settings noTags (OpDeleteNode nodeId) v =
     v\<lparr> v_canvas := deleteNode nodeId (v_canvas v) \<rparr>"
| "canvasStep settings noTags OpSave v =
     v\<lparr> v_canvas := saveGraphDataImmediate (v_nodes v) (v_edges v) (v_canvas v) \<rparr>"
| "canvasStep settings noTags (OpApplyFilters selectedTags selectedStatuses) v =
     (render v)\<lparr> v_canvas := applyFilters noTags selectedTags selectedStatuses (v_canvas v) \<rparr>"

definition canvasSteps :: "TasksMapSettings \<Rightarrow> jsstring \<Rightarrow> CanvasOp list \<Rightarrow> View \<Rightarrow> View" where
  "canvasSteps settings noTags ops v = foldl (\<lambda>v op. canvasStep settings noTags op v) v ops"

text \<open>
  Uniqueness of node identifiers: on the canvas, among the nodes of the last render, and
  in the snapshot the canvas is restored from.
\<close>

definition uniqueNodeIds :: "TaskNode list \<Rightarrow> bool" where
  "uniqueNodeIds nodes = distinct (map n_id nodes)"

definition uniqueSavedIds :: "GraphData \<Rightarrow> bool" where
  "uniqueSavedIds graphData = distinct (map sn_id (g_nodes graphData))"

definition uniqueViewIds :: "View \<Rightarrow> bool" where
  "uniqueViewIds v =
     (uniqueNodeIds (c_nodes (v_canvas v)) \<and> uniqueNodeIds (v_nodes v)
      \<and> uniqueSavedIds (c_graphData (v_canvas v)))"

section \<open>String primitives of the document mutator (src/lib/utils.ts)\<close>

text \<open>
  A run-time \<^verbatim>\<open>TypeError\<close> is the one way the mutator's own code can throw: calling a
  method on \<^verbatim>\<open>lines[i]\<close> when the index is out of range and the read gives
  \<^verbatim>\<open>undefined\<close>. Every such read goes through \<open>readAt\<close>, and every operation returns
  \<open>error + jsstring\<close>.
\<close>

datatype error = TypeError

definition readAt :: "'a list \<Rightarrow> nat \<Rightarrow> error + 'a" where
  "readAt xs i = (if i < length xs then Inr (xs ! i) else Inl TypeError)"

definition LF :: jschar where "LF = 0x0A"
definition CR :: jschar where "CR = 0x0D"

text \<open>The glyphs: U+2B50, U+26D4 and the surrogate pair of U+1F194.\<close>

definition STAR :: jschar where "STAR = 0x2B50"
definition STOP_SIGN :: jschar where "STOP_SIGN = 0x26D4"
definition ID_SIGN :: jsstring where "ID_SIGN = [0xD83C, 0xDD94]"

text \<open>
  The character classes of the regular expressions: \<^verbatim>\<open>\s\<close> (white space and line
  terminators, which is also what \<^verbatim>\<open>trim\<close> strips), the line terminators that \<^verbatim>\<open>.\<close>
  does not match, and \<^verbatim>\<open>[a-zA-Z0-9]\<close>.
\<close>

definition isWS :: "jschar \<Rightarrow> bool" where
  "isWS c = List.member [0x09, 0x0A, 0x0B, 0x0C, 0x0D, 0x20, 0xA0, 0x1680, 0x2000, 0x2001,
     0x2002, 0x2003, 0x2004, 0x2005, 0x2006, 0x2007, 0x2008, 0x2009, 0x200A, 0x2028, 0x2029,
     0x202F, 0x205F, 0x3000, 0xFEFF] c"

definition isLineTerminator :: "jschar \<Rightarrow> bool" where
  "isLineTerminator c = List.member [0x0A, 0x0D, 0x2028, 0x2029] c"

definition isAlnum :: "jschar \<Rightarrow> bool" where
  "isAlnum c = ((0x61 \<le> c \<and> c \<le> 0x7A) \<or> (0x41 \<le> c \<and> c \<le> 0x5A) \<or> (0x30 \<le> c \<and> c \<le> 0x39))"

text \<open>\<^verbatim>\<open>String.prototype.startsWith\<close>, \<^verbatim>\<open>includes\<close>, \<^verbatim>\<open>trim\<close>.\<close>

fun js_startsWith :: "jsstring \<Rightarrow> jsstring \<Rightarrow> bool" where
  "js_startsWith s [] = True"
| "js_startsWith [] (p # ps) = False"
| "js_startsWith (c # cs) (p # ps) = (c = p \<and> js_startsWith cs ps)"

fun js_includes :: "jsstring \<Rightarrow> jsstring \<Rightarrow> bool" where
  "js_includes [] n = (n = [])"
| "js_includes (c # cs) n = (js_startsWith (c # cs) n \<or> js_includes cs n)"

definition trimEnd :: "jsstring \<Rightarrow> jsstring" where
  "trimEnd s = rev (dropWhile isWS (rev s))"

definition js_trim :: "jsstring \<Rightarrow> jsstring" where
  "js_trim s = trimEnd (dropWhile isWS s)"

text \<open>\<^verbatim>\<open>Array.prototype.findIndex\<close>, with \<open>None\<close> for \<^verbatim>\<open>-1\<close>.\<close>

fun findIndex :: "('a \<Rightarrow> bool) \<Rightarrow> 'a list \<Rightarrow> nat option" where
  "findIndex P [] = None"
| "findIndex P (x # xs) = (if P x then Some 0 else map_option Suc (findIndex P xs))"

text \<open>
  \<^verbatim>\<open>fileContent.split(/\r?\n/)\<close>: a line ends at a line feed, and a carriage return right
  before that line feed belongs to the separator. The result is never empty.
\<close>

definition consHead :: "jschar \<Rightarrow> jsstring list \<Rightarrow> jsstring list" where
  "consHead c ls = (case ls of [] \<Rightarrow> [[c]] | l # r \<Rightarrow> (c # l) # r)"

fun splitLines :: "jsstring \<Rightarrow> jsstring list" where
  "splitLines [] = [[]]"
| "splitLines [c] = (if c = LF then [[], []] else [[c]])"
| "splitLines (c # d # ds) =
     (if c = LF then [] # splitLines (d # ds)
      else if c = CR \<and> d = LF then [] # splitLines ds
      else consHead c (splitLines (d # ds)))"

text \<open>
  \<^verbatim>\<open>s.split(c)\<close> for a one-character separator: \<^verbatim>\<open>content.split("\n")\<close> in the scan of
  the task files, \<^verbatim>\<open>split(",")\<close> and \<^verbatim>\<open>split("/")\<close> in the mutator.
\<close>

fun splitChar :: "jschar \<Rightarrow> jsstring \<Rightarrow> jsstring list" where
  "splitChar sep [] = [[]]"
| "splitChar sep (c # cs) = (if c = sep then [] # splitChar sep cs else consHead c (splitChar sep cs))"

text \<open>\<^verbatim>\<open>parts.join(sep)\<close>, and \<^verbatim>\<open>lines.join("\n")\<close>.\<close>

fun joinWith :: "jsstring \<Rightarrow> jsstring list \<Rightarrow> jsstring" where
  "joinWith sep [] = []"
| "joinWith sep [l] = l"
| "joinWith sep (l # m # r) = l @ sep @ joinWith sep (m # r)"

definition joinLines :: "jsstring list \<Rightarrow> jsstring" where
  "joinLines lines = joinWith [LF] lines"

text \<open>\<^verbatim>\<open>lines.splice(i, 1)\<close> and \<^verbatim>\<open>lines.splice(i, 0, ...items)\<close>.\<close>

definition spliceOut :: "nat \<Rightarrow> 'a list \<Rightarrow> 'a list" where
  "spliceOut i xs = take i xs @ drop (Suc i) xs"

definition spliceIn :: "nat \<Rightarrow> 'a list \<Rightarrow> 'a list \<Rightarrow> 'a list" where
  "spliceIn i items xs = take i xs @ items @ drop i xs"

text \<open>
  The frontmatter boundaries: \<^verbatim>\<open>lines[0] === "---"\<close> and the first later line equal to
  \<^verbatim>\<open>"---"\<close>. The start is always line 0; the answer is the end index, \<open>None\<close> when either
  boundary is missing (the source returns the content unchanged then).
\<close>

definition frontmatterEnd :: "jsstring list \<Rightarrow> nat option" where
  "frontmatterEnd lines =
     (case lines of
        [] \<Rightarrow> None
      | l # rest \<Rightarrow> if l = str ''---''
                    then map_option Suc (findIndex (\<lambda>x. x = str ''---'') rest)
                    else None)"

text \<open>
  The loop \<^verbatim>\<open>for (let i = a; i < b; i++) if (P(lines[i])) { found = i; break; }\<close> where
  the test calls a method of \<^verbatim>\<open>lines[i]\<close>.
\<close>

function findFrom :: "(jsstring \<Rightarrow> bool) \<Rightarrow> jsstring list \<Rightarrow> nat \<Rightarrow> nat \<Rightarrow> error + nat option" where
  "findFrom P lines i b =
     (if i < b then
        (case readAt lines i of
           Inl e \<Rightarrow> Inl e
         | Inr l \<Rightarrow> if P l then Inr (Some i) else findFrom P lines (Suc i) b)
      else Inr None)"
  by pat_completeness auto
termination
  by (relation "measure (\<lambda>(P, lines, i, b). b - i)") auto

text \<open>
  \<^verbatim>\<open>findTaskLineByIdOrText\<close>: the first line with the emoji id, else the first line with
  the Dataview id, else the first line that contains the task text.
\<close>

definition findTaskLineByIdOrText :: "jsstring list \<Rightarrow> jsstring \<Rightarrow> jsstring \<Rightarrow> nat option" where
  "findTaskLineByIdOrText lines taskId taskText =
     (case findIndex (\<lambda>line. js_includes line (ID_SIGN @ str '' '' @ taskId)) lines of
        Some i \<Rightarrow> Some i
      | None \<Rightarrow>
         (case findIndex (\<lambda>line. js_includes line (str ''[[id:: '' @ taskId @ str '']]'')) lines of
            Some i \<Rightarrow> Some i
          | None \<Rightarrow> findIndex (\<lambda>line. js_includes line taskText) lines))"

text \<open>
  The regular expressions \<^verbatim>\<open>EMOJI_ID_REMOVAL\<close>, \<^verbatim>\<open>DATAVIEW_ID_REMOVAL\<close>, \<^verbatim>\<open>TAG_REMOVAL\<close>
  and \<^verbatim>\<open>WHITESPACE_NORMALIZE\<close> are constants of src/lib/task-regex, whose values are
  not known here. Each
  \<^verbatim>\<open>replace\<close> with one of them is a parameter, a function on strings.
\<close>

record TaskRegex =
  emojiIdRemoval :: "jsstring \<Rightarrow> jsstring"
  dataviewIdRemoval :: "jsstring \<Rightarrow> jsstring"
  tagRemoval :: "jsstring \<Rightarrow> jsstring"
  whitespaceNormalize :: "jsstring \<Rightarrow> jsstring"

definition coreText :: "TaskRegex \<Rightarrow> jsstring \<Rightarrow> jsstring" where
  "coreText rx s =
     js_trim (whitespaceNormalize rx (tagRemoval rx (dataviewIdRemoval rx (emojiIdRemoval rx s))))"

text \<open>
  The line lookup of the tag operations: \<^verbatim>\<open>findTaskLineByIdOrText\<close>, and when that finds
  nothing, the first line whose core text contains, or is contained in, the task's.
\<close>

definition findTaskLineWithFallback ::
  "TaskRegex \<Rightarrow> jsstring list \<Rightarrow> jsstring \<Rightarrow> jsstring \<Rightarrow> nat option" where
  "findTaskLineWithFallback rx lines taskId taskText =
     (case findTaskLineByIdOrText lines taskId taskText of
        Some i \<Rightarrow> Some i
      | None \<Rightarrow>
         (let coreTaskText = coreText rx taskText
          in findIndex (\<lambda>line. js_includes (coreText rx line) coreTaskText
                              \<or> js_includes coreTaskText (coreText rx line)) lines))"

section \<open>The regular expressions of the document mutator, as matchers\<close>

text \<open>
  Each regular expression of the source is a function that tries the pattern at the
  start of a string. None of the patterns needs backtracking: where a greedy \<^verbatim>\<open>\s*\<close> or
  a greedy repetition is followed by a literal or a class, that follower never matches
  what the repetition consumed. \<open>firstMatch\<close> is the search for the leftmost match: it
  answers the text before the match together with what the matcher answered.
\<close>

fun firstMatch :: "(jsstring \<Rightarrow> 'm option) \<Rightarrow> jsstring \<Rightarrow> (jsstring \<times> 'm) option" where
  "firstMatch M [] = map_option (\<lambda>m. ([], m)) (M [])"
| "firstMatch M (c # cs) =
     (case M (c # cs) of
        Some m \<Rightarrow> Some ([], m)
      | None \<Rightarrow> map_option (\<lambda>(pre, m). (c # pre, m)) (firstMatch M cs))"

definition dropPrefix :: "jsstring \<Rightarrow> jsstring \<Rightarrow> jsstring option" where
  "dropPrefix p s = (if js_startsWith s p then Some (drop (length p) s) else None)"

text \<open>\<^verbatim>\<open>[a-zA-Z0-9]{6}\<close>: the six characters and what follows them.\<close>

definition takeAlnum6 :: "jsstring \<Rightarrow> (jsstring \<times> jsstring) option" where
  "takeAlnum6 s =
     (if 6 \<le> length s \<and> list_all isAlnum (take 6 s) then Some (take 6 s, drop 6 s) else None)"

subsection \<open>Status\<close>

definition statusSymbols :: "TaskStatus \<Rightarrow> jsstring" where
  "statusSymbols s =
     (case s of st_todo \<Rightarrow> str ''[ ]'' | st_in_progress \<Rightarrow> str ''[/]''
      | st_canceled \<Rightarrow> str ''[-]'' | st_done \<Rightarrow> str ''[x]'')"

definition isStatusCode :: "jschar \<Rightarrow> bool" where
  "isStatusCode c = List.member [0x20, 0x78, 0x2F, 0x2D] c"

text \<open>
  \<^verbatim>\<open>line.replace(/\[([ x/\-])\]/, statusSymbols[newStatus])\<close>: the first bracketed status
  code is replaced; the replacement strings hold no \<^verbatim>\<open>$\<close>.
\<close>

fun replaceStatus :: "jsstring \<Rightarrow> jsstring \<Rightarrow> jsstring" where
  "replaceStatus symbol (a # b # c # rest) =
     (if a = 0x5B \<and> isStatusCode b \<and> c = 0x5D then symbol @ rest
      else a # replaceStatus symbol (b # c # rest))"
| "replaceStatus symbol s = s"

definition noteStatus :: "TaskStatus \<Rightarrow> jsstring" where
  "noteStatus s =
     (case s of st_todo \<Rightarrow> str ''open'' | st_done \<Rightarrow> str ''done''
      | st_in_progress \<Rightarrow> str ''in-progress'' | st_canceled \<Rightarrow> str ''canceled'')"

text \<open>
  The scan of the task files (\<^verbatim>\<open>scanTasksFromFiles\<close>) recognises a task line with
  \<^verbatim>\<open>/^[\s]*- \[(.)\]/\<close> and takes the captured character as the raw status.
\<close>

definition taskStatusChar :: "jsstring \<Rightarrow> jschar option" where
  "taskStatusChar line =
     (case dropWhile isWS line of
        a # b # c # d # e # rest \<Rightarrow>
          if a = 0x2D \<and> b = 0x20 \<and> c = 0x5B \<and> \<not> isLineTerminator d \<and> e = 0x5D
          then Some d else None
      | _ \<Rightarrow> None)"

text \<open>
  Modelled from the spec: the status table of the task parser (\<^verbatim>\<open>TaskFactory\<close> of
  src/lib/task-factory, which is missing): space is todo, \<^verbatim>\<open>/\<close> is in_progress, \<^verbatim>\<open>-\<close>
  is canceled, \<^verbatim>\<open>x\<close> is done. The spec names no status for any other code.
\<close>

definition statusOfCode :: "jschar \<Rightarrow> TaskStatus option" where
  "statusOfCode c =
     (if c = 0x20 then Some st_todo
      else if c = 0x2F then Some st_in_progress
      else if c = 0x2D then Some st_canceled
      else if c = 0x78 then Some st_done
      else None)"

definition parseStatus :: "jsstring \<Rightarrow> TaskStatus option" where
  "parseStatus line = (case taskStatusChar line of None \<Rightarrow> None | Some c \<Rightarrow> statusOfCode c)"

subsection \<open>Frontmatter list items and fields\<close>

text \<open>\<^verbatim>\<open>/^\s{2}- /\<close> and the capture of \<^verbatim>\<open>/^\s{2}- (.+)$/\<close>.\<close>

definition matchesListItem :: "jsstring \<Rightarrow> bool" where
  "matchesListItem line =
     (case line of
        a # b # c # d # rest \<Rightarrow> isWS a \<and> isWS b \<and> c = 0x2D \<and> d = 0x20
      | _ \<Rightarrow> False)"

definition listItemValue :: "jsstring \<Rightarrow> jsstring option" where
  "listItemValue line =
     (case line of
        a # b # c # d # rest \<Rightarrow>
          if isWS a \<and> isWS b \<and> c = 0x2D \<and> d = 0x20 \<and> rest \<noteq> []
             \<and> list_all (\<lambda>x. \<not> isLineTerminator x) rest
          then Some rest else None
      | _ \<Rightarrow> None)"

text \<open>
  \<^verbatim>\<open>/^starred:\s*/\<close> and \<^verbatim>\<open>/^priority:\s*/\<close> match exactly the lines that start with the
  key; \<^verbatim>\<open>/^blockedBy:\s*$/\<close> asks for white space only after the key.
\<close>

definition matchesStarred :: "jsstring \<Rightarrow> bool" where
  "matchesStarred line = js_startsWith line (str ''starred:'')"

definition matchesPriority :: "jsstring \<Rightarrow> bool" where
  "matchesPriority line = js_startsWith line (str ''priority:'')"

definition matchesBlockedBy :: "jsstring \<Rightarrow> bool" where
  "matchesBlockedBy line =
     (case dropPrefix (str ''blockedBy:'') line of
        None \<Rightarrow> False
      | Some rest \<Rightarrow> list_all isWS rest)"

text \<open>
  \<^verbatim>\<open>/^\s{2}- uid:/\<close>, \<^verbatim>\<open>/^\s{4}reltype:/\<close>, \<^verbatim>\<open>/^\s*- uid:/\<close> and \<^verbatim>\<open>/^\s*reltype:/\<close>.
\<close>

definition matchesUid2 :: "jsstring \<Rightarrow> bool" where
  "matchesUid2 line =
     (case line of
        a # b # rest \<Rightarrow> isWS a \<and> isWS b \<and> js_startsWith rest (str ''- uid:'')
      | _ \<Rightarrow> False)"

definition matchesReltype4 :: "jsstring \<Rightarrow> bool" where
  "matchesReltype4 line =
     (case line of
        a # b # c # d # rest \<Rightarrow>
          isWS a \<and> isWS b \<and> isWS c \<and> isWS d \<and> js_startsWith rest (str ''reltype:'')
      | _ \<Rightarrow> False)"

definition matchesUidAny :: "jsstring \<Rightarrow> bool" where
  "matchesUidAny line = js_startsWith (dropWhile isWS line) (str ''- uid:'')"

definition matchesReltypeAny :: "jsstring \<Rightarrow> bool" where
  "matchesReltypeAny line = js_startsWith (dropWhile isWS line) (str ''reltype:'')"

subsection \<open>Stars and tags\<close>

text \<open>
  \<^verbatim>\<open>line.replace(/\s*STAR\s*/g, " ")\<close>: every star, with the white space around it,
  becomes one space.
\<close>

function replaceStar :: "jsstring \<Rightarrow> jsstring" where
  "replaceStar [] = []"
| "replaceStar (c # cs) =
     (case dropWhile isWS (c # cs) of
        [] \<Rightarrow> c # replaceStar cs
      | x # r \<Rightarrow> if x = STAR then 0x20 # replaceStar (dropWhile isWS r)
                 else c # replaceStar cs)"
  by pat_completeness auto
termination
proof (relation "measure length")
  fix c :: jschar and cs x r
  assume "dropWhile isWS (c # cs) = x # r"
  then have "length (x # r) \<le> length (c # cs)"
    by (metis length_dropWhile_le)
  moreover have "length (dropWhile isWS r) \<le> length r"
    by (rule length_dropWhile_le)
  ultimately show "(dropWhile isWS r, c # cs) \<in> measure length"
    by simp
qed simp_all

text \<open>\<^verbatim>\<open>replace(/\s+/g, " ")\<close>: every run of white space becomes one space.\<close>

function collapseWS :: "jsstring \<Rightarrow> jsstring" where
  "collapseWS [] = []"
| "collapseWS (c # cs) =
     (if isWS c then 0x20 # collapseWS (dropWhile isWS cs) else c # collapseWS cs)"
  by pat_completeness auto
termination
  by (relation "measure length") (simp_all add: length_dropWhile_le less_Suc_eq_le)

text \<open>
  The pattern built for a tag, \<^verbatim>\<open>\s*#TAG(?:/\S*)?(?=\s|$)\<close> with the tag escaped to a
  literal: at the start of a string it answers what follows the match.
\<close>

definition matchTagAt :: "jsstring \<Rightarrow> jsstring \<Rightarrow> jsstring option" where
  "matchTagAt tag s =
     (case dropWhile isWS s of
        [] \<Rightarrow> None
      | h # r \<Rightarrow>
          if h = 0x23 then
            (case dropPrefix tag r of
               None \<Rightarrow> None
             | Some r2 \<Rightarrow>
                 (case r2 of
                    [] \<Rightarrow> Some []
                  | x # r3 \<Rightarrow>
                      if x = 0x2F then Some (dropWhile (\<lambda>y. \<not> isWS y) r3)
                      else if isWS x then Some r2
                      else None))
          else None)"

text \<open>\<^verbatim>\<open>currentLine.replace(tagPattern, "")\<close> with the global flag.\<close>

function removeTagAll :: "jsstring \<Rightarrow> jsstring \<Rightarrow> jsstring" where
  "removeTagAll tag [] = []"
| "removeTagAll tag (c # cs) =
     (case matchTagAt tag (c # cs) of
        None \<Rightarrow> c # removeTagAll tag cs
      | Some rest \<Rightarrow> removeTagAll tag rest)"
  by pat_completeness auto
termination
proof (relation "measure (\<lambda>(tag, s). length s)")
  fix tag :: jsstring and c :: jschar and cs rest
  assume m: "matchTagAt tag (c # cs) = Some rest"
  obtain h r where hr: "dropWhile isWS (c # cs) = h # r"
    using m by (auto simp: matchTagAt_def split: list.splits)
  have "length (h # r) \<le> length (c # cs)"
    using hr by (metis length_dropWhile_le)
  then have r: "length r < length (c # cs)"
    by simp
  obtain r2 where r2: "dropPrefix tag r = Some r2"
    using m hr by (auto simp: matchTagAt_def split: if_splits option.splits)
  have r2le: "length r2 \<le> length r"
    using r2 by (auto simp: dropPrefix_def split: if_splits)
  have "length rest \<le> length r2"
  proof (cases r2)
    case Nil
    then show ?thesis using m hr r2 by (auto simp: matchTagAt_def split: if_splits)
  next
    case (Cons x r3)
    have "length (dropWhile (\<lambda>y. \<not> isWS y) r3) \<le> length r3"
      by (rule length_dropWhile_le)
    then show ?thesis using m hr r2 Cons by (auto simp: matchTagAt_def split: if_splits)
  qed
  then show "((tag, rest), (tag, c # cs)) \<in> measure (\<lambda>(tag, s). length s)"
    using r r2le by simp
qed simp_all

subsection \<open>Identifier and dependency markers\<close>

text \<open>What a match gives: the matched text, the first capture, and the text after the match.\<close>

record Match =
  m_text :: jsstring
  m_group :: jsstring
  m_rest :: jsstring

text \<open>
  \<^verbatim>\<open>/ID\s*[a-zA-Z0-9]{6}/\<close> with the squared-ID glyph, and
  \<^verbatim>\<open>/\[\[id::\s*[a-zA-Z0-9]{6}\]\]/\<close>, both used with \<^verbatim>\<open>test\<close>.
\<close>

definition matchEmojiId :: "jsstring \<Rightarrow> unit option" where
  "matchEmojiId s =
     (case dropPrefix ID_SIGN s of
        None \<Rightarrow> None
      | Some r \<Rightarrow> map_option (\<lambda>x. ()) (takeAlnum6 (dropWhile isWS r)))"

definition emojiIdPresent :: "jsstring \<Rightarrow> bool" where
  "emojiIdPresent line = (firstMatch matchEmojiId line \<noteq> None)"

definition matchDataviewId :: "jsstring \<Rightarrow> unit option" where
  "matchDataviewId s =
     (case dropPrefix (str ''[[id::'') s of
        None \<Rightarrow> None
      | Some r \<Rightarrow>
         (case takeAlnum6 (dropWhile isWS r) of
            None \<Rightarrow> None
          | Some (i, r2) \<Rightarrow> if js_startsWith r2 (str '']]'') then Some () else None))"

definition dataviewIdPresent :: "jsstring \<Rightarrow> bool" where
  "dataviewIdPresent line = (firstMatch matchDataviewId line \<noteq> None)"

text \<open>
  \<^verbatim>\<open>/\[\[dependsOn::\s*([a-zA-Z0-9]{6}(?:,\s*[a-zA-Z0-9]{6})*)\]\]/\<close>. \<open>moreDataviewIds\<close>
  is the repetition \<^verbatim>\<open>(?:,\s*[a-zA-Z0-9]{6})*\<close>: it answers what follows the last
  item it could take.
\<close>

function moreDataviewIds :: "jsstring \<Rightarrow> jsstring" where
  "moreDataviewIds [] = []"
| "moreDataviewIds (c # r) =
     (if c = 0x2C then
        (case takeAlnum6 (dropWhile isWS r) of
           None \<Rightarrow> c # r
         | Some (i, r2) \<Rightarrow> moreDataviewIds r2)
      else c # r)"
  by pat_completeness auto
termination
proof (relation "measure length")
  fix c :: jschar and r x i r2
  assume "takeAlnum6 (dropWhile isWS r) = Some x" and "(i, r2) = x"
  then have "r2 = drop 6 (dropWhile isWS r)"
    by (auto simp: takeAlnum6_def split: if_splits)
  moreover have "length (dropWhile isWS r) \<le> length r"
    by (rule length_dropWhile_le)
  ultimately show "(r2, c # r) \<in> measure length"
    by simp
qed simp

definition matchDataviewDeps :: "jsstring \<Rightarrow> Match option" where
  "matchDataviewDeps s =
     (case dropPrefix (str ''[[dependsOn::'') s of
        None \<Rightarrow> None
      | Some r0 \<Rightarrow>
         (let r = dropWhile isWS r0 in
          case takeAlnum6 r of
            None \<Rightarrow> None
          | Some (i, r1) \<Rightarrow>
             (let r2 = moreDataviewIds r1 in
              case dropPrefix (str '']]'') r2 of
                None \<Rightarrow> None
              | Some rest \<Rightarrow>
                  Some \<lparr> m_text = take (length s - length rest) s,
                         m_group = take (length r - length r2) r,
                         m_rest = rest \<rparr>)))"

text \<open>
  \<^verbatim>\<open>/STOP\s*([a-zA-Z0-9]{6}(?:,[a-zA-Z0-9]{6})*)/\<close> with the no-entry glyph, the
  comma-separated form that \<^verbatim>\<open>addSignToTaskInFile\<close> looks for.
\<close>

function moreCsvIds :: "jsstring \<Rightarrow> jsstring" where
  "moreCsvIds [] = []"
| "moreCsvIds (c # r) =
     (if c = 0x2C then
        (case takeAlnum6 r of
           None \<Rightarrow> c # r
         | Some (i, r2) \<Rightarrow> moreCsvIds r2)
      else c # r)"
  by pat_completeness auto
termination
proof (relation "measure length")
  fix c :: jschar and r x i r2
  assume "takeAlnum6 r = Some x" and "(i, r2) = x"
  then have "r2 = drop 6 r"
    by (auto simp: takeAlnum6_def split: if_splits)
  then show "(r2, c # r) \<in> measure length"
    by simp
qed simp

definition matchCsv :: "jsstring \<Rightarrow> Match option" where
  "matchCsv s =
     (case s of
        [] \<Rightarrow> None
      | c # r0 \<Rightarrow>
          if c = STOP_SIGN then
            (let r = dropWhile isWS r0 in
             case takeAlnum6 r of
               None \<Rightarrow> None
             | Some (i, r1) \<Rightarrow>
                (let r2 = moreCsvIds r1 in
                 Some \<lparr> m_text = take (length s - length r2) s,
                        m_group = take (length r - length r2) r,
                        m_rest = r2 \<rparr>))
          else None)"

text \<open>
  \<^verbatim>\<open>/STOP\s*([a-zA-Z0-9]{6})/g\<close>, one marker per dependency, and all its matches from left
  to right (\<^verbatim>\<open>matchAll\<close>).
\<close>

definition matchIndividual :: "jsstring \<Rightarrow> Match option" where
  "matchIndividual s =
     (case s of
        [] \<Rightarrow> None
      | c # r0 \<Rightarrow>
          if c = STOP_SIGN then
            (case takeAlnum6 (dropWhile isWS r0) of
               None \<Rightarrow> None
             | Some (i, r1) \<Rightarrow>
                 Some \<lparr> m_text = take (length s - length r1) s, m_group = i, m_rest = r1 \<rparr>)
          else None)"

function allIndividualMatches :: "jsstring \<Rightarrow> Match list" where
  "allIndividualMatches [] = []"
| "allIndividualMatches (c # cs) =
     (case matchIndividual (c # cs) of
        None \<Rightarrow> allIndividualMatches cs
      | Some m \<Rightarrow> m # allIndividualMatches (m_rest m))"
  by pat_completeness auto
termination
proof (relation "measure length")
  fix c :: jschar and cs m
  assume "matchIndividual (c # cs) = Some m"
  then have "m_rest m = drop 6 (dropWhile isWS cs)"
    by (auto simp: matchIndividual_def takeAlnum6_def split: if_splits option.splits)
  moreover have "length (dropWhile isWS cs) \<le> length cs"
    by (rule length_dropWhile_le)
  ultimately show "(m_rest m, c # cs) \<in> measure length"
    by simp
qed simp_all

text \<open>
  \<^verbatim>\<open>/STOP\s*([a-zA-Z0-9]+(?:,[a-zA-Z0-9]+)*)/\<close>, the form that
  \<^verbatim>\<open>removeSignFromTaskInFile\<close> looks for: identifiers of any length.
\<close>

definition takeAlnumPlus :: "jsstring \<Rightarrow> (jsstring \<times> jsstring) option" where
  "takeAlnumPlus s =
     (if takeWhile isAlnum s = [] then None else Some (takeWhile isAlnum s, dropWhile isAlnum s))"

function moreCsvAny :: "jsstring \<Rightarrow> jsstring" where
  "moreCsvAny [] = []"
| "moreCsvAny (c # r) =
     (if c = 0x2C then
        (case takeAlnumPlus r of
           None \<Rightarrow> c # r
         | Some (i, r2) \<Rightarrow> moreCsvAny r2)
      else c # r)"
  by pat_completeness auto
termination
proof (relation "measure length")
  fix c :: jschar and r x i r2
  assume "takeAlnumPlus r = Some x" and "(i, r2) = x"
  then have "r2 = dropWhile isAlnum r"
    by (auto simp: takeAlnumPlus_def split: if_splits)
  moreover have "length (dropWhile isAlnum r) \<le> length r"
    by (rule length_dropWhile_le)
  ultimately show "(r2, c # r) \<in> measure length"
    by simp
qed simp

definition matchCsvAny :: "jsstring \<Rightarrow> Match option" where
  "matchCsvAny s =
     (case s of
        [] \<Rightarrow> None
      | c # r0 \<Rightarrow>
          if c = STOP_SIGN then
            (let r = dropWhile isWS r0 in
             case takeAlnumPlus r of
               None \<Rightarrow> None
             | Some (i, r1) \<Rightarrow>
                (let r2 = moreCsvAny r1 in
                 Some \<lparr> m_text = take (length s - length r2) s,
                        m_group = take (length r - length r2) r,
                        m_rest = r2 \<rparr>))
          else None)"

subsection \<open>Replacement\<close>

text \<open>
  The replacement text of \<^verbatim>\<open>String.prototype.replace\<close> is a template: \<^verbatim>\<open>$$\<close> is a dollar,
  \<^verbatim>\<open>$&\<close> the matched text, \<^verbatim>\<open>$`\<close> and \<^verbatim>\<open>$'\<close> the text before and after the match, and
  \<^verbatim>\<open>$n\<close>, \<^verbatim>\<open>$nn\<close> the captures: two digits when that number is a capture, else one digit
  when that is, else the text as it stands. The patterns here have no named capture.
\<close>

definition isDigit :: "jschar \<Rightarrow> bool" where
  "isDigit c = (0x30 \<le> c \<and> c \<le> 0x39)"

definition digitValue :: "jschar \<Rightarrow> nat" where
  "digitValue c = unat c - 48"

fun expandReplacement ::
  "jsstring \<Rightarrow> jsstring \<Rightarrow> jsstring \<Rightarrow> jsstring list \<Rightarrow> jsstring \<Rightarrow> jsstring" where
  "expandReplacement matched pre post groups [] = []"
| "expandReplacement matched pre post groups [c] = [c]"
| "expandReplacement matched pre post groups (c # d # t) =
     (if c \<noteq> 0x24 then c # expandReplacement matched pre post groups (d # t)
      else if d = 0x24 then 0x24 # expandReplacement matched pre post groups t
      else if d = 0x26 then matched @ expandReplacement matched pre post groups t
      else if d = 0x60 then pre @ expandReplacement matched pre post groups t
      else if d = 0x27 then post @ expandReplacement matched pre post groups t
      else if isDigit d then
        (case t of
           [] \<Rightarrow>
             if 1 \<le> digitValue d \<and> digitValue d \<le> length groups
             then groups ! (digitValue d - 1)
             else [c, d]
         | e # t' \<Rightarrow>
             if isDigit e \<and> 10 * digitValue d + digitValue e \<le> length groups then
               (if 1 \<le> 10 * digitValue d + digitValue e
                then groups ! (10 * digitValue d + digitValue e - 1)
                       @ expandReplacement matched pre post groups t'
                else c # d # e # expandReplacement matched pre post groups t')
             else if 1 \<le> digitValue d \<and> digitValue d \<le> length groups then
               groups ! (digitValue d - 1) @ expandReplacement matched pre post groups (e # t')
             else c # d # expandReplacement matched pre post groups (e # t'))
      else c # expandReplacement matched pre post groups (d # t))"

text \<open>\<^verbatim>\<open>s.replace(regex, template)\<close> without the global flag, for a regex with one capture.\<close>

definition replaceRegex :: "(jsstring \<Rightarrow> Match option) \<Rightarrow> jsstring \<Rightarrow> jsstring \<Rightarrow> jsstring" where
  "replaceRegex M template s =
     (case firstMatch M s of
        None \<Rightarrow> s
      | Some (pre, m) \<Rightarrow>
          pre @ expandReplacement (m_text m) pre (m_rest m) [m_group m] template @ m_rest m)"

text \<open>\<^verbatim>\<open>s.replace(pattern, template)\<close> for a string pattern: its first occurrence.\<close>

definition replaceString :: "jsstring \<Rightarrow> jsstring \<Rightarrow> jsstring \<Rightarrow> jsstring" where
  "replaceString pattern template s =
     (case firstMatch (dropPrefix pattern) s of
        None \<Rightarrow> s
      | Some (pre, rest) \<Rightarrow> pre @ expandReplacement pattern pre rest [] template @ rest)"

text \<open>\<^verbatim>\<open>fromTaskId.replace(/\.md$/, "").split("/").pop()\<close>.\<close>

definition basename :: "jsstring \<Rightarrow> jsstring" where
  "basename path =
     last (splitChar 0x2F
       (if js_startsWith (rev path) (rev (str ''.md'')) then take (length path - 3) path else path))"

section \<open>The document mutator (src/lib/utils.ts)\<close>

text \<open>
  Each operation reads the task's file, hands its content to a callback
  (\<^verbatim>\<open>vault.process(file, (fileContent) => ...)\<close>) and writes what the callback returns.
  The callbacks come first, one per operation and task type; a thrown \<^verbatim>\<open>TypeError\<close> is
  the value \<open>Inl TypeError\<close>.
\<close>

subsection \<open>Status\<close>

definition updateTaskStatus_note :: "TaskStatus \<Rightarrow> jsstring \<Rightarrow> error + jsstring" where
  "updateTaskStatus_note newStatus fileContent =
     (let lines = splitLines fileContent in
      case frontmatterEnd lines of
        None \<Rightarrow> Inr fileContent
      | Some fmEnd \<Rightarrow>
         (case findFrom (\<lambda>l. js_startsWith l (str ''status:'')) lines 1 fmEnd of
            Inl e \<Rightarrow> Inl e
          | Inr None \<Rightarrow> Inr (joinLines lines)
          | Inr (Some i) \<Rightarrow> Inr (joinLines (lines[i := str ''status: '' @ noteStatus newStatus]))))"

definition updateTaskStatus_inline ::
  "jsstring \<Rightarrow> jsstring \<Rightarrow> TaskStatus \<Rightarrow> jsstring \<Rightarrow> error + jsstring" where
  "updateTaskStatus_inline taskId taskText newStatus fileContent =
     (let lines = splitLines fileContent in
      case findTaskLineByIdOrText lines taskId taskText of
        None \<Rightarrow> Inr fileContent
      | Some taskLineIdx \<Rightarrow>
         (case readAt lines taskLineIdx of
            Inl e \<Rightarrow> Inl e
          | Inr line \<Rightarrow>
              Inr (joinLines (lines[taskLineIdx := replaceStatus (statusSymbols newStatus) line]))))"

subsection \<open>Tags\<close>

text \<open>
  The inner loop of the tag removal, from the line after \<^verbatim>\<open>tags:\<close>: it walks the list
  items and removes the first one whose value is the tag.
\<close>

function removeTagLoop :: "jsstring \<Rightarrow> jsstring list \<Rightarrow> nat \<Rightarrow> nat \<Rightarrow> error + jsstring list" where
  "removeTagLoop tag lines i fmEnd =
     (if i < fmEnd then
        (case readAt lines i of
           Inl e \<Rightarrow> Inl e
         | Inr tagLine \<Rightarrow>
             if matchesListItem tagLine then
               (if listItemValue tagLine = Some tag then Inr (spliceOut i lines)
                else removeTagLoop tag lines (Suc i) fmEnd)
             else Inr lines)
      else Inr lines)"
  by pat_completeness auto
termination
  by (relation "measure (\<lambda>(tag, lines, i, fmEnd). fmEnd - i)") auto

text \<open>
  The outer loops of both tag operations compare \<^verbatim>\<open>lines[i]\<close> with \<^verbatim>\<open>"tags:"\<close> for
  \<open>0 < i < fmEnd\<close>, a comparison that cannot throw: the index of the first such line.
\<close>

definition findTagsLine :: "jsstring list \<Rightarrow> nat \<Rightarrow> nat option" where
  "findTagsLine lines fmEnd =
     map_option Suc (findIndex (\<lambda>l. l = str ''tags:'') (take (fmEnd - 1) (drop 1 lines)))"

definition removeTag_note :: "jsstring \<Rightarrow> jsstring \<Rightarrow> error + jsstring" where
  "removeTag_note tagToRemove fileContent =
     (let lines = splitLines fileContent in
      case frontmatterEnd lines of
        None \<Rightarrow> Inr fileContent
      | Some fmEnd \<Rightarrow>
         (case findTagsLine lines fmEnd of
            None \<Rightarrow> Inr (joinLines lines)
          | Some i \<Rightarrow>
             (case removeTagLoop tagToRemove lines (Suc i) fmEnd of
                Inl e \<Rightarrow> Inl e
              | Inr lines' \<Rightarrow> Inr (joinLines lines'))))"

definition removeTag_inline ::
  "TaskRegex \<Rightarrow> jsstring \<Rightarrow> jsstring \<Rightarrow> jsstring \<Rightarrow> jsstring \<Rightarrow> error + jsstring" where
  "removeTag_inline rx taskId taskText tagToRemove fileContent =
     (let lines = splitLines fileContent in
      case findTaskLineWithFallback rx lines taskId taskText of
        None \<Rightarrow> Inr fileContent
      | Some taskLineIdx \<Rightarrow>
         (case readAt lines taskLineIdx of
            Inl e \<Rightarrow> Inl e
          | Inr currentLine \<Rightarrow>
              Inr (joinLines (lines[taskLineIdx :=
                     js_trim (collapseWS (removeTagAll tagToRemove currentLine))]))))"

text \<open>
  The inner loop of the tag addition, from the line after \<^verbatim>\<open>tags:\<close>: \<open>Inr None\<close> when the
  tag is already an item (the source returns the content unchanged), else the index
  after the last item.
\<close>

function addTagLoop :: "jsstring \<Rightarrow> jsstring list \<Rightarrow> nat \<Rightarrow> nat \<Rightarrow> error + nat option" where
  "addTagLoop tag lines j fmEnd =
     (if j < fmEnd then
        (case readAt lines j of
           Inl e \<Rightarrow> Inl e
         | Inr tagLine \<Rightarrow>
             if matchesListItem tagLine then
               (if listItemValue tagLine = Some tag then Inr None
                else addTagLoop tag lines (Suc j) fmEnd)
             else Inr (Some j))
      else Inr (Some j))"
  by pat_completeness auto
termination
  by (relation "measure (\<lambda>(tag, lines, j, fmEnd). fmEnd - j)") auto

definition addTag_note :: "jsstring \<Rightarrow> jsstring \<Rightarrow> error + jsstring" where
  "addTag_note tagToAdd fileContent =
     (let lines = splitLines fileContent in
      case frontmatterEnd lines of
        None \<Rightarrow> Inr fileContent
      | Some fmEnd \<Rightarrow>
         (case findTagsLine lines fmEnd of
            None \<Rightarrow> Inr (joinLines (spliceIn fmEnd [str ''tags:'', str ''  - '' @ tagToAdd] lines))
          | Some i \<Rightarrow>
             (case addTagLoop tagToAdd lines (Suc i) fmEnd of
                Inl e \<Rightarrow> Inl e
              | Inr None \<Rightarrow> Inr fileContent
              | Inr (Some j) \<Rightarrow> Inr (joinLines (spliceIn j [str ''  - '' @ tagToAdd] lines)))))"

definition addTag_inline ::
  "TaskRegex \<Rightarrow> jsstring \<Rightarrow> jsstring \<Rightarrow> jsstring \<Rightarrow> jsstring \<Rightarrow> error + jsstring" where
  "addTag_inline rx taskId taskText tagToAdd fileContent =
     (let lines = splitLines fileContent in
      case findTaskLineWithFallback rx lines taskId taskText of
        None \<Rightarrow> Inr fileContent
      | Some taskLineIdx \<Rightarrow>
         (case readAt lines taskLineIdx of
            Inl e \<Rightarrow> Inl e
          | Inr currentLine \<Rightarrow>
             (let formattedTag = (if js_startsWith tagToAdd (str ''#'') then tagToAdd
                                  else str ''#'' @ tagToAdd)
              in Inr (joinLines (lines[taskLineIdx := js_trim currentLine @ str '' '' @ formattedTag])))))"

subsection \<open>Stars\<close>

definition addStar_note :: "jsstring \<Rightarrow> error + jsstring" where
  "addStar_note fileContent =
     (let lines = splitLines fileContent in
      case frontmatterEnd lines of
        None \<Rightarrow> Inr fileContent
      | Some fmEnd \<Rightarrow>
         (case findFrom matchesStarred lines 1 fmEnd of
            Inl e \<Rightarrow> Inl e
          | Inr (Some starredIndex) \<Rightarrow> Inr (joinLines (lines[starredIndex := str ''starred: true'']))
          | Inr None \<Rightarrow>
             (case findFrom matchesPriority lines 1 fmEnd of
                Inl e \<Rightarrow> Inl e
              | Inr found \<Rightarrow>
                 (let insertIndex = (case found of None \<Rightarrow> fmEnd | Some i \<Rightarrow> i + 1)
                  in Inr (joinLines (spliceIn insertIndex [str ''starred: true''] lines))))))"

definition addStar_inline :: "jsstring \<Rightarrow> jsstring \<Rightarrow> jsstring \<Rightarrow> error + jsstring" where
  "addStar_inline taskId taskText fileContent =
     (let lines = splitLines fileContent in
      case findTaskLineByIdOrText lines taskId taskText of
        None \<Rightarrow> Inr fileContent
      | Some taskLineIdx \<Rightarrow>
         (case readAt lines taskLineIdx of
            Inl e \<Rightarrow> Inl e
          | Inr line \<Rightarrow>
              if js_includes line [STAR] then Inr fileContent
              else Inr (joinLines (lines[taskLineIdx := line @ [0x20, STAR]]))))"

definition removeStar_note :: "jsstring \<Rightarrow> error + jsstring" where
  "removeStar_note fileContent =
     (let lines = splitLines fileContent in
      case frontmatterEnd lines of
        None \<Rightarrow> Inr fileContent
      | Some fmEnd \<Rightarrow>
         (case findFrom matchesStarred lines 1 fmEnd of
            Inl e \<Rightarrow> Inl e
          | Inr None \<Rightarrow> Inr (joinLines lines)
          | Inr (Some i) \<Rightarrow> Inr (joinLines (lines[i := str ''starred: false'']))))"

definition removeStar_inline :: "jsstring \<Rightarrow> jsstring \<Rightarrow> jsstring \<Rightarrow> error + jsstring" where
  "removeStar_inline taskId taskText fileContent =
     (let lines = splitLines fileContent in
      case findTaskLineByIdOrText lines taskId taskText of
        None \<Rightarrow> Inr fileContent
      | Some taskLineIdx \<Rightarrow>
         (case readAt lines taskLineIdx of
            Inl e \<Rightarrow> Inl e
          | Inr line \<Rightarrow> Inr (joinLines (lines[taskLineIdx := js_trim (replaceStar line)]))))"

subsection \<open>Dependency and identifier markers of inline tasks\<close>

datatype SignType = sign_stop | sign_id

text \<open>
  The \<^verbatim>\<open>id\<close> branch of \<^verbatim>\<open>addSignToTaskInFile\<close> on the task line: \<open>None\<close> where the source
  returns the content unchanged, else the new line.
\<close>

definition addIdToLine :: "jsstring \<Rightarrow> LinkingStyle \<Rightarrow> jsstring \<Rightarrow> jsstring option" where
  "addIdToLine hash style line =
     (if emojiIdPresent line \<or> dataviewIdPresent line then None
      else
        (let sign = (if style = dataview then str ''[[id:: '' @ hash @ str '']]''
                     else ID_SIGN @ str '' '' @ hash)
         in if js_includes line sign then None else Some (line @ str '' '' @ sign)))"

text \<open>The \<^verbatim>\<open>stop\<close> branch, in the same way.\<close>

definition addStopToLine :: "jsstring \<Rightarrow> LinkingStyle \<Rightarrow> jsstring \<Rightarrow> jsstring option" where
  "addStopToLine hash style line =
     (let usesDataviewFormat =
            (style = dataview \<or> dataviewIdPresent line \<or> firstMatch matchDataviewDeps line \<noteq> None)
      in
      if usesDataviewFormat then
        (case firstMatch matchDataviewDeps line of
           Some (pre, m) \<Rightarrow>
             (let existingIds = map js_trim (splitChar 0x2C (m_group m)) in
              if List.member existingIds hash then Some line
              else Some (replaceRegex matchDataviewDeps
                     (str ''[[dependsOn:: '' @ joinWith (str '', '') (existingIds @ [hash]) @ str '']]'')
                     line))
         | None \<Rightarrow> Some (line @ str '' [[dependsOn:: '' @ hash @ str '']]''))
      else if style = csv then
        (case firstMatch matchCsv line of
           Some (pre, m) \<Rightarrow>
             (let existingIds = map js_trim (splitChar 0x2C (m_group m)) in
              if List.member existingIds hash then Some line
              else Some (replaceRegex matchCsv
                     ([STOP_SIGN, 0x20] @ joinWith (str '','') (existingIds @ [hash]))
                     line))
         | None \<Rightarrow>
             (let individualMatches = allIndividualMatches line in
              if individualMatches \<noteq> [] then
                (let ids = map m_group individualMatches;
                     existingIds = (if List.member ids hash then ids else ids @ [hash]);
                     updatedLine = foldl (\<lambda>l m. replaceString (m_text m) [] l) line individualMatches
                 in Some (js_trim updatedLine @ [0x20, STOP_SIGN, 0x20]
                          @ joinWith (str '','') existingIds))
              else Some (line @ [0x20, STOP_SIGN, 0x20] @ hash)))
      else
        (let sign = [STOP_SIGN, 0x20] @ hash
         in if js_includes line sign then None else Some (line @ str '' '' @ sign)))"

definition addSign_inline ::
  "jsstring \<Rightarrow> SignType \<Rightarrow> jsstring \<Rightarrow> LinkingStyle \<Rightarrow> jsstring \<Rightarrow> error + jsstring" where
  "addSign_inline taskText type hash style fileContent =
     (let lines = splitLines fileContent in
      case findIndex (\<lambda>line. js_includes line taskText) lines of
        None \<Rightarrow> Inr fileContent
      | Some taskLineIdx \<Rightarrow>
         (case readAt lines taskLineIdx of
            Inl e \<Rightarrow> Inl e
          | Inr line \<Rightarrow>
             (case (case type of sign_id \<Rightarrow> addIdToLine hash style line
                               | sign_stop \<Rightarrow> addStopToLine hash style line) of
                None \<Rightarrow> Inr fileContent
              | Some newLine \<Rightarrow> Inr (joinLines (lines[taskLineIdx := newLine])))))"

text \<open>\<^verbatim>\<open>removeSignFromTaskInFile\<close> on the task line; every path ends in \<^verbatim>\<open>lines.join\<close>.\<close>

definition removeIdFromLine :: "jsstring \<Rightarrow> jsstring \<Rightarrow> jsstring" where
  "removeIdFromLine hash line =
     (let emojiSign = ID_SIGN @ str '' '' @ hash;
          dataviewSign = str ''[[id:: '' @ hash @ str '']]''
      in if js_includes line emojiSign then trimEnd (replaceString emojiSign [] line)
         else if js_includes line dataviewSign then trimEnd (replaceString dataviewSign [] line)
         else line)"

definition removeStopFromLine :: "jsstring \<Rightarrow> jsstring \<Rightarrow> jsstring" where
  "removeStopFromLine hash line =
     (case firstMatch matchDataviewDeps line of
        Some (pre, m) \<Rightarrow>
          (let existingIds = map js_trim (splitChar 0x2C (m_group m));
               filteredIds = filter (\<lambda>i. i \<noteq> hash) existingIds
           in if filteredIds = [] then trimEnd (replaceString (m_text m) [] line)
              else if length filteredIds \<noteq> length existingIds then
                replaceRegex matchDataviewDeps
                  (str ''[[dependsOn:: '' @ joinWith (str '', '') filteredIds @ str '']]'') line
              else line)
      | None \<Rightarrow>
          (case firstMatch matchCsvAny line of
             Some (pre, m) \<Rightarrow>
               (let existingIds = map js_trim (splitChar 0x2C (m_group m));
                    filteredIds = filter (\<lambda>i. i \<noteq> hash) existingIds
                in if filteredIds = [] then trimEnd (replaceString (m_text m) [] line)
                   else if length filteredIds \<noteq> length existingIds then
                     replaceString (m_text m)
                       ([STOP_SIGN, 0x20] @ joinWith (str '','') filteredIds) line
                   else line)
           | None \<Rightarrow>
               (let sign = [STOP_SIGN, 0x20] @ hash
                in if js_includes line sign then trimEnd (replaceString sign [] line) else line)))"

definition removeSign_inline ::
  "jsstring \<Rightarrow> SignType \<Rightarrow> jsstring \<Rightarrow> jsstring \<Rightarrow> error + jsstring" where
  "removeSign_inline taskText type hash fileContent =
     (let lines = splitLines fileContent in
      case findIndex (\<lambda>line. js_includes line taskText) lines of
        None \<Rightarrow> Inr fileContent
      | Some taskLineIdx \<Rightarrow>
         (case readAt lines taskLineIdx of
            Inl e \<Rightarrow> Inl e
          | Inr line \<Rightarrow>
              Inr (joinLines (lines[taskLineIdx :=
                     (case type of sign_id \<Rightarrow> removeIdFromLine hash line
                                 | sign_stop \<Rightarrow> removeStopFromLine hash line)]))))"

subsection \<open>Dependencies of note tasks\<close>

text \<open>
  The loop of \<^verbatim>\<open>addDependencyToNoteTask\<close> that walks the \<^verbatim>\<open>blockedBy\<close> items: a \<^verbatim>\<open>uid\<close>
  line, and the \<^verbatim>\<open>reltype\<close> line when one follows.
\<close>

function blockedByEnd :: "jsstring list \<Rightarrow> nat \<Rightarrow> nat \<Rightarrow> error + nat" where
  "blockedByEnd lines insertIndex bound =
     (if insertIndex < bound then
        (case readAt lines insertIndex of
           Inl e \<Rightarrow> Inl e
         | Inr line \<Rightarrow>
             if matchesUid2 line then
               (if Suc insertIndex < length lines then
                  (case readAt lines (Suc insertIndex) of
                     Inl e \<Rightarrow> Inl e
                   | Inr next \<Rightarrow>
                       if matchesReltype4 next then blockedByEnd lines (Suc (Suc insertIndex)) bound
                       else blockedByEnd lines (Suc insertIndex) bound)
                else blockedByEnd lines (Suc insertIndex) bound)
             else Inr insertIndex)
      else Inr insertIndex)"
  by pat_completeness auto
termination
  by (relation "measure (\<lambda>(lines, insertIndex, bound). bound - insertIndex)") auto

definition addDependency_note :: "jsstring \<Rightarrow> jsstring \<Rightarrow> error + jsstring" where
  "addDependency_note fromTaskText fileContent =
     (let lines = splitLines fileContent in
      case frontmatterEnd lines of
        None \<Rightarrow> Inr fileContent
      | Some fmEnd \<Rightarrow>
         (let frontmatterLines = take (fmEnd - 1) (drop 1 lines);
              blockedByIndex = findIndex matchesBlockedBy frontmatterLines;
              taskIdentifier = str ''[['' @ fromTaskText @ str '']]'';
              uidLine = str ''  - uid: '' @ [0x22] @ taskIdentifier @ [0x22];
              reltypeLine = str ''    reltype: FINISHTOSTART''
          in
          case findFrom (\<lambda>l. js_includes l (str ''uid:'') \<and> js_includes l taskIdentifier)
                 lines 1 fmEnd of
            Inl e \<Rightarrow> Inl e
          | Inr (Some i) \<Rightarrow> Inr fileContent
          | Inr None \<Rightarrow>
             (case blockedByIndex of
                None \<Rightarrow>
                  Inr (joinLines (spliceIn fmEnd [str ''blockedBy:'', uidLine, reltypeLine] lines))
              | Some b \<Rightarrow>
                 (case blockedByEnd lines (0 + 1 + b + 1) (0 + 1 + length frontmatterLines) of
                    Inl e \<Rightarrow> Inl e
                  | Inr insertIndex \<Rightarrow>
                      Inr (joinLines (spliceIn insertIndex [uidLine, reltypeLine] lines))))))"

text \<open>
  The loop of \<^verbatim>\<open>removeDependencyFromNoteTask\<close>: each matching \<^verbatim>\<open>uid\<close> line is spliced out,
  with the \<^verbatim>\<open>reltype\<close> line after it when there is one, and the end index goes down by
  two either way.
\<close>

function removeDependencyLoop ::
  "jsstring \<Rightarrow> jsstring list \<Rightarrow> nat \<Rightarrow> int \<Rightarrow> error + jsstring list" where
  "removeDependencyLoop ident lines i fmEnd =
     (if int i < fmEnd then
        (case readAt lines i of
           Inl e \<Rightarrow> Inl e
         | Inr line \<Rightarrow>
             if matchesUidAny line \<and> js_includes line ident then
               (let lines1 = spliceOut i lines;
                    lines2 = (if i < length lines1 \<and> matchesReltypeAny (lines1 ! i)
                              then spliceOut i lines1 else lines1)
                in removeDependencyLoop ident lines2 i (fmEnd - 2))
             else removeDependencyLoop ident lines (Suc i) fmEnd)
      else Inr lines)"
  by pat_completeness auto
termination
  by (relation "measure (\<lambda>(ident, lines, i, fmEnd). nat (fmEnd - int i))") auto

definition removeDependency_note :: "jsstring \<Rightarrow> jsstring \<Rightarrow> error + jsstring" where
  "removeDependency_note fromTaskId fileContent =
     (let lines = splitLines fileContent in
      case frontmatterEnd lines of
        None \<Rightarrow> Inr fileContent
      | Some fmEnd \<Rightarrow>
         (case removeDependencyLoop (str ''[['' @ basename fromTaskId @ str '']]'') lines 1 (int fmEnd) of
            Inl e \<Rightarrow> Inl e
          | Inr lines' \<Rightarrow> Inr (joinLines lines')))"

subsection \<open>The operations on the vault\<close>

text \<open>
  The vault maps a path to the content of the file there. An operation does nothing when
  the task has no link or no text, or when there is no file at the link; a callback that
  throws leaves the exception to the caller.
\<close>

type_synonym vault = "jsstring \<rightharpoonup> jsstring"

definition process :: "jsstring \<Rightarrow> (jsstring \<Rightarrow> error + jsstring) \<Rightarrow> vault \<Rightarrow> error + vault" where
  "process path callback v =
     (case v path of
        None \<Rightarrow> Inr v
      | Some fileContent \<Rightarrow>
         (case callback fileContent of
            Inl e \<Rightarrow> Inl e
          | Inr newContent \<Rightarrow> Inr (v(path \<mapsto> newContent))))"

definition updateTaskStatusInVault :: "Task \<Rightarrow> TaskStatus \<Rightarrow> vault \<Rightarrow> error + vault" where
  "updateTaskStatusInVault task newStatus v =
     (if t_link task = [] \<or> t_text task = [] then Inr v
      else if t_type task = type_note then process (t_link task) (updateTaskStatus_note newStatus) v
      else process (t_link task) (updateTaskStatus_inline (t_id task) (t_text task) newStatus) v)"

definition removeTagFromTaskInVault :: "TaskRegex \<Rightarrow> Task \<Rightarrow> jsstring \<Rightarrow> vault \<Rightarrow> error + vault" where
  "removeTagFromTaskInVault rx task tagToRemove v =
     (if t_link task = [] \<or> t_text task = [] then Inr v
      else if t_type task = type_note then process (t_link task) (removeTag_note tagToRemove) v
      else process (t_link task) (removeTag_inline rx (t_id task) (t_text task) tagToRemove) v)"

definition addStarToTaskInVault :: "Task \<Rightarrow> vault \<Rightarrow> error + vault" where
  "addStarToTaskInVault task v =
     (if t_link task = [] \<or> t_text task = [] then Inr v
      else if t_type task = type_note then process (t_link task) addStar_note v
      else process (t_link task) (addStar_inline (t_id task) (t_text task)) v)"

definition removeStarFromTaskInVault :: "Task \<Rightarrow> vault \<Rightarrow> error + vault" where
  "removeStarFromTaskInVault task v =
     (if t_link task = [] \<or> t_text task = [] then Inr v
      else if t_type task = type_note then process (t_link task) removeStar_note v
      else process (t_link task) (removeStar_inline (t_id task) (t_text task)) v)"

definition addTagToTaskInVault :: "TaskRegex \<Rightarrow> Task \<Rightarrow> jsstring \<Rightarrow> vault \<Rightarrow> error + vault" where
  "addTagToTaskInVault rx task tagToAdd v =
     (if t_link task = [] \<or> t_text task = [] then Inr v
      else if t_type task = type_note then process (t_link task) (addTag_note tagToAdd) v
      else process (t_link task) (addTag_inline rx (t_id task) (t_text task) tagToAdd) v)"

definition addSignToTaskInFile ::
  "Task \<Rightarrow> SignType \<Rightarrow> jsstring \<Rightarrow> LinkingStyle \<Rightarrow> vault \<Rightarrow> error + vault" where
  "addSignToTaskInFile task type hash style v =
     (if t_link task = [] \<or> t_text task = [] then Inr v
      else process (t_link task) (addSign_inline (t_text task) type hash style) v)"

definition removeSignFromTaskInFile :: "Task \<Rightarrow> SignType \<Rightarrow> jsstring \<Rightarrow> vault \<Rightarrow> error + vault" where
  "removeSignFromTaskInFile task type hash v =
     (if t_link task = [] \<or> t_text task = [] then Inr v
      else process (t_link task) (removeSign_inline (t_text task) type hash) v)"

definition addDependencyToNoteTask :: "Task \<Rightarrow> Task \<Rightarrow> vault \<Rightarrow> error + vault" where
  "addDependencyToNoteTask toTask fromTask v =
     (if t_link toTask = [] then Inr v
      else process (t_link toTask) (addDependency_note (t_text fromTask)) v)"

definition removeDependencyFromNoteTask :: "Task \<Rightarrow> jsstring \<Rightarrow> vault \<Rightarrow> error + vault" where
  "removeDependencyFromNoteTask toTask fromTaskId v =
     (if t_link toTask = [] then Inr v
      else process (t_link toTask) (removeDependency_note fromTaskId) v)"

subsection \<open>The mutator as one function\<close>

text \<open>
  The operations of the document mutator, and for each the callback it hands to
  \<^verbatim>\<open>vault.process\<close>. Status, tags and stars choose the callback by the task's type; the
  marker operations of inline tasks and the dependency operations of note tasks are
  functions of their own in the source.
\<close>

datatype Mutation =
    SetStatus TaskStatus
  | AddTag jsstring
  | RemoveTag jsstring
  | AddStar
  | RemoveStar
  | AddSign SignType jsstring LinkingStyle
  | RemoveSign SignType jsstring
  | AddNoteDependency jsstring
  | RemoveNoteDependency jsstring

fun callbackOf :: "TaskRegex \<Rightarrow> Task \<Rightarrow> Mutation \<Rightarrow> jsstring \<Rightarrow> error + jsstring" where
  "callbackOf rx task (SetStatus s) =
     (if t_type task = type_note then updateTaskStatus_note s
      else updateTaskStatus_inline (t_id task) (t_text task) s)"
| "callbackOf rx task (AddTag tag) =
     (if t_type task = type_note then addTag_note tag
      else addTag_inline rx (t_id task) (t_text task) tag)"
| "callbackOf rx task (RemoveTag tag) =
     (if t_type task = type_note then removeTag_note tag
      else removeTag_inline rx (t_id task) (t_text task) tag)"
| "callbackOf rx task AddStar =
     (if t_type task = type_note then addStar_note
      else addStar_inline (t_id task) (t_text task))"
| "callbackOf rx task RemoveStar =
     (if t_type task = type_note then removeStar_note
      else removeStar_inline (t_id task) (t_text task))"
| "callbackOf rx task (AddSign type hash style) = addSign_inline (t_text task) type hash style"
| "callbackOf rx task (RemoveSign type hash) = removeSign_inline (t_text task) type hash"
| "callbackOf rx task (AddNoteDependency fromTaskText) = addDependency_note fromTaskText"
| "callbackOf rx task (RemoveNoteDependency fromTaskId) = removeDependency_note fromTaskId"

text \<open>The fields of the task that stands for \<^verbatim>\<open>fromTask\<close> in a note dependency.\<close>

definition fromTaskOf :: "jsstring \<Rightarrow> Task" where
  "fromTaskOf fromTaskText =
     \<lparr> t_id = [], t_type = type_note, t_summary = [], t_text = fromTaskText, t_tags = [],
       t_status = st_todo, t_priority = [], t_link = [], t_incomingLinks = [],
       t_starred = False, t_line = None \<rparr>"

fun mutateVault :: "TaskRegex \<Rightarrow> Task \<Rightarrow> Mutation \<Rightarrow> vault \<Rightarrow> error + vault" where
  "mutateVault rx task (SetStatus s) v = updateTaskStatusInVault task s v"
| "mutateVault rx task (AddTag tag) v = addTagToTaskInVault rx task tag v"
| "mutateVault rx task (RemoveTag tag) v = removeTagFromTaskInVault rx task tag v"
| "mutateVault rx task AddStar v = addStarToTaskInVault task v"
| "mutateVault rx task RemoveStar v = removeStarFromTaskInVault task v"
| "mutateVault rx task (AddSign type hash style) v = addSignToTaskInFile task type hash style v"
| "mutateVault rx task (RemoveSign type hash) v = removeSignFromTaskInFile task type hash v"
| "mutateVault rx task (AddNoteDependency fromTaskText) v =
     addDependencyToNoteTask task (fromTaskOf fromTaskText) v"
| "mutateVault rx task (RemoveNoteDependency fromTaskId) v =
     removeDependencyFromNoteTask task fromTaskId v"

text \<open>
  When the target of an operation cannot be located, in terms of the text alone. For a
  note task: the first line is not the boundary \<^verbatim>\<open>---\<close>, or no later line is. For an
  inline task: no line holds the emoji id, the Dataview id or the task text; for the
  marker operations, which look for the text only, no line holds the text.
\<close>

definition frontmatterMissing :: "jsstring list \<Rightarrow> bool" where
  "frontmatterMissing lines =
     (case lines of
        [] \<Rightarrow> True
      | l # rest \<Rightarrow> l \<noteq> str ''---'' \<or> \<not> list_ex (\<lambda>x. x = str ''---'') rest)"

definition lineMissing :: "jsstring list \<Rightarrow> jsstring \<Rightarrow> jsstring \<Rightarrow> bool" where
  "lineMissing lines taskId taskText =
     (\<not> list_ex (\<lambda>line. js_includes line (ID_SIGN @ str '' '' @ taskId)
                        \<or> js_includes line (str ''[[id:: '' @ taskId @ str '']]'')
                        \<or> js_includes line taskText) lines)"

definition textMissing :: "jsstring list \<Rightarrow> jsstring \<Rightarrow> bool" where
  "textMissing lines taskText = (\<not> list_ex (\<lambda>line. js_includes line taskText) lines)"

fun targetMissing :: "Task \<Rightarrow> Mutation \<Rightarrow> jsstring \<Rightarrow> bool" where
  "targetMissing task (SetStatus s) doc =
     (if t_type task = type_note then frontmatterMissing (splitLines doc)
      else lineMissing (splitLines doc) (t_id task) (t_text task))"
| "targetMissing task (AddTag tag) doc =
     (if t_type task = type_note then frontmatterMissing (splitLines doc)
      else lineMissing (splitLines doc) (t_id task) (t_text task))"
| "targetMissing task (RemoveTag tag) doc =
     (if t_type task = type_note then frontmatterMissing (splitLines doc)
      else lineMissing (splitLines doc) (t_id task) (t_text task))"
| "targetMissing task AddStar doc =
     (if t_type task = type_note then frontmatterMissing (splitLines doc)
      else lineMissing (splitLines doc) (t_id task) (t_text task))"
| "targetMissing task RemoveStar doc =
     (if t_type task = type_note then frontmatterMissing (splitLines doc)
      else lineMissing (splitLines doc) (t_id task) (t_text task))"
| "targetMissing task (AddSign type hash style) doc = textMissing (splitLines doc) (t_text task)"
| "targetMissing task (RemoveSign type hash) doc = textMissing (splitLines doc) (t_text task)"
| "targetMissing task (AddNoteDependency fromTaskText) doc = frontmatterMissing (splitLines doc)"
| "targetMissing task (RemoveNoteDependency fromTaskId) doc = frontmatterMissing (splitLines doc)"

text \<open>
  The tag operations on an inline task are the ones that go on, when the task line is
  not found, to the lookup by core text. That lookup finds nothing when no line has a
  core text that contains the task's, or is contained in it.
\<close>

definition usesCoreText :: "Task \<Rightarrow> Mutation \<Rightarrow> bool" where
  "usesCoreText task op =
     (t_type task \<noteq> type_note
      \<and> (case op of AddTag tag \<Rightarrow> True | RemoveTag tag \<Rightarrow> True | _ \<Rightarrow> False))"

definition coreLineMissing :: "TaskRegex \<Rightarrow> jsstring list \<Rightarrow> jsstring \<Rightarrow> bool" where
  "coreLineMissing rx lines taskText =
     (\<not> list_ex (\<lambda>line. js_includes (coreText rx line) (coreText rx taskText)
                        \<or> js_includes (coreText rx taskText) (coreText rx line)) lines)"

subsection \<open>Reading back what was written\<close>

text \<open>
  A callback returns \<^verbatim>\<open>lines.join("\n")\<close>, and the next operation on the file splits
  that text again. A line that ended in a carriage return and was not the last one
  loses that carriage return on the way: it now stands before a line feed.
\<close>

definition dropCR :: "jsstring \<Rightarrow> jsstring" where
  "dropCR l = (if l \<noteq> [] \<and> last l = CR then butlast l else l)"

definition reread :: "jsstring list \<Rightarrow> jsstring list" where
  "reread lines = map dropCR (butlast lines) @ [last lines]"

section \<open>Example values\<close>

text \<open>\<^verbatim>\<open>DEFAULT_SETTINGS\<close> and \<^verbatim>\<open>DEFAULT_GRAPH_DATA\<close> of src/types/settings.ts.\<close>

definition DEFAULT_SETTINGS :: TasksMapSettings where
  "DEFAULT_SETTINGS =
     \<lparr> showPriorities = True, showTags = True, layoutDirection = Horizontal,
       linkingStyle = csv, debugVisualization = False, tagColorMode = mode_random,
       tagColorSeed = 42, tagStaticColor = str ''#3b82f6'' \<rparr>"

definition DEFAULT_GRAPH_DATA :: GraphData where
  "DEFAULT_GRAPH_DATA =
     \<lparr> g_nodes = [], g_edges = [], g_viewport = \<lparr> vp_x = 0, vp_y = 0, vp_zoom = 1 \<rparr> \<rparr>"

text \<open>An inline to-do task with the given identifier, text and dependencies.\<close>

definition exTask :: "jsstring \<Rightarrow> jsstring \<Rightarrow> jsstring list \<Rightarrow> Task" where
  "exTask ident text links =
     \<lparr> t_id = ident, t_type = type_inline, t_summary = text, t_text = text, t_tags = [],
       t_status = st_todo, t_priority = [], t_link = str ''Tasks.md'',
       t_incomingLinks = links, t_starred = False, t_line = None \<rparr>"

text \<open>A snapshot node at \<open>(40, 70)\<close>, and a canvas whose snapshot is a given node list.\<close>

definition exSaved :: "jsstring \<Rightarrow> Task option \<Rightarrow> SavedNodeData" where
  "exSaved ident taskData =
     \<lparr> sn_id = ident, sn_position = \<lparr> pos_x = 40, pos_y = 70 \<rparr>, sn_taskId = ident,
       sn_taskData = taskData \<rparr>"

definition exCanvas :: "TaskNode list \<Rightarrow> SavedNodeData list \<Rightarrow> Canvas" where
  "exCanvas ns saved =
     \<lparr> c_nodes = ns, c_edges = [], c_tasks = [], c_viewport = g_viewport DEFAULT_GRAPH_DATA,
       c_graphData = DEFAULT_GRAPH_DATA\<lparr> g_nodes := saved \<rparr> \<rparr>"

text \<open>
  A canvas node at \<open>(40, 70)\<close> for an inline task with the given identifier, and the
  request to add such a task at the origin, with the task as the dragged data.
\<close>

definition exNode :: "jsstring \<Rightarrow> TaskNode" where
  "exNode ident =
     mkNode DEFAULT_SETTINGS ident \<lparr> pos_x = 40, pos_y = 70 \<rparr> (exTask ident (str ''a'') [])"

definition exAdd :: "jsstring \<Rightarrow> CanvasOp" where
  "exAdd ident =
     OpAddTaskToCanvas ident \<lparr> pos_x = 0, pos_y = 0 \<rparr> (Some (exTask ident (str ''a'') []))"

text \<open>A view that has just rendered a canvas with the given nodes and an empty snapshot.\<close>

definition exView :: "TaskNode list \<Rightarrow> View" where
  "exView ns = \<lparr> v_canvas = exCanvas ns [], v_tasks = [], v_nodes = ns, v_edges = [] \<rparr>"

text \<open>
  Values for the four regular expressions of src/lib/task-regex, for examples: each
  \<^verbatim>\<open>replace\<close> leaves the string as it is.
\<close>

definition exRegex :: TaskRegex where
  "exRegex = \<lparr> emojiIdRemoval = (\<lambda>s. s), dataviewIdRemoval = (\<lambda>s. s),
                tagRemoval = (\<lambda>s. s), whitespaceNormalize = (\<lambda>s. s) \<rparr>"

text \<open>A note task, and a vault that holds one file.\<close>

definition exNote :: "jsstring \<Rightarrow> Task" where
  "exNote path =
     \<lparr> t_id = path, t_type = type_note, t_summary = str ''Note'', t_text = str ''Note'', t_tags = [],
       t_status = st_todo, t_priority = [], t_link = path, t_incomingLinks = [],
       t_starred = False, t_line = None \<rparr>"

definition exVault :: "jsstring \<Rightarrow> jsstring \<Rightarrow> vault" where
  "exVault path fileContent = [path \<mapsto> fileContent]"

section \<open>Properties of the graph builder\<close>

lemma createEdges_pairs:
  "map (\<lambda>e. (e_source e, e_target e)) (createEdgesFromTasks tasks ld dv)
     = concat (map (\<lambda>t. map (\<lambda>p. (p, t_id t)) (t_incomingLinks t)) tasks)"
  by (induction tasks) (simp_all add: mkEdge_def comp_def)

lemma createEdges_length:
  "length (createEdgesFromTasks tasks ld dv) = sum_list (map (\<lambda>t. length (t_incomingLinks t)) tasks)"
  by (induction tasks) simp_all

lemma createEdges_ids:
  "list_all (\<lambda>e. e_id e = e_source e @ str ''-'' @ e_target e \<and> ed_hash (e_data e) = e_id e)
     (createEdgesFromTasks tasks ld dv)"
  by (induction tasks) (auto simp: mkEdge_def list_all_iff)

text \<open>
  C4. For every task list, \<^verbatim>\<open>createEdgesFromTasks\<close> emits exactly one edge per entry of
  each task's \<^verbatim>\<open>incomingLinks\<close>, in order: the sources and targets of the edges are the
  pairs (entry, task id), their number is the total number of entries, and in every edge
  both the id and the hash carried in the data are source, a hyphen, target. Nothing in
  the statement asks the entry to be the id of a task of the list: dangling sources are
  emitted like any other, and the function has no failing path.
\<close>

theorem createEdgesFromTasks_one_edge_per_incoming_link:
  "map (\<lambda>e. (e_source e, e_target e)) (createEdgesFromTasks tasks ld dv)
     = concat (map (\<lambda>t. map (\<lambda>p. (p, t_id t)) (t_incomingLinks t)) tasks)
   \<and> length (createEdgesFromTasks tasks ld dv)
     = sum_list (map (\<lambda>t. length (t_incomingLinks t)) tasks)
   \<and> list_all (\<lambda>e. e_id e = e_source e @ str ''-'' @ e_target e \<and> ed_hash (e_data e) = e_id e)
       (createEdgesFromTasks tasks ld dv)"
  using createEdges_pairs createEdges_length createEdges_ids by blast

text \<open>
  The example of the specification: the single task \<open>B\<close> depending on \<open>A\<close>, which is no
  task of the list, gives the single edge \<open>A-B\<close>.
\<close>

theorem createEdgesFromTasks_one_edge_per_incoming_link_witness:
  "map (\<lambda>e. (e_id e, e_source e, e_target e, ed_hash (e_data e)))
     (createEdgesFromTasks [exTask (str ''B'') (str ''b'') [str ''A'']] Horizontal False)
   = [(str ''A-B'', str ''A'', str ''B'', str ''A-B'')]"
  using createEdgesFromTasks_one_edge_per_incoming_link
    [where tasks = "[exTask (str ''B'') (str ''b'') [str ''A'']]" and ld = Horizontal and dv = False]
  by (simp add: exTask_def mkEdge_def str_def)

section \<open>Properties of the layout adapter\<close>

lemma layoutNode_absent:
  "dagreNode (n_id node) = None \<Longrightarrow>
   n_position (layoutNode dagreNode node) = \<lparr> pos_x = 0, pos_y = 0 \<rparr>"
  by (simp add: layoutNode_def)

lemma layoutNode_present:
  "dagreNode (n_id node) = Some p \<Longrightarrow>
   n_position (layoutNode dagreNode node) = \<lparr> pos_x = pos_x p - 90, pos_y = pos_y p - 30 \<rparr>"
  by (simp add: layoutNode_def)

text \<open>
  C9. The layout falls back to \<open>(0, 0)\<close> for a node the algorithm did not place, but it
  does not subtract half of the configured node size from the positions it gets: the
  nodes are laid out with width \<^verbatim>\<open>NODEWIDTH = 250\<close> and height \<^verbatim>\<open>NODEHEIGHT = 120\<close>,
  and the offsets subtracted are the literals 90 and 30. A node the algorithm centers at
  \<open>(125, 60)\<close> is put at \<open>(35, 30)\<close>; half of the configured size would put it at
  \<open>(0, 0)\<close>.
\<close>

theorem getLayoutedElements_offset_is_not_half_node_size:
  "map n_position
     (getLayoutedElements (\<lambda>i. Some \<lparr> pos_x = 125, pos_y = 60 \<rparr>)
        [mkNode DEFAULT_SETTINGS (str ''N1'') \<lparr> pos_x = 0, pos_y = 0 \<rparr> (exTask (str ''N1'') (str ''a'') [])])
     = [\<lparr> pos_x = 35, pos_y = 30 \<rparr>]
   \<and> \<lparr> pos_x = 125 - NODEWIDTH / 2, pos_y = 60 - NODEHEIGHT / 2 \<rparr> = \<lparr> pos_x = 0, pos_y = 0 \<rparr>"
  by (simp add: getLayoutedElements_def layoutNode_def mkNode_def NODEWIDTH_def NODEHEIGHT_def)

section \<open>Properties of the canvas\<close>

lemma updateNode_id: "n_id (updateNode scanned node) = n_id node"
  by (simp add: updateNode_def split: option.splits)

lemma updateNode_position: "n_position (updateNode scanned node) = n_position node"
  by (simp add: updateNode_def split: option.splits)

lemma updateNode_cases:
  "(case find (\<lambda>t. t_id t = n_id node) scanned of
      Some u \<Rightarrow> updateNode scanned node =
                 (if d_task (n_data node) = None then node
                  else node\<lparr> n_data := (n_data node)\<lparr> d_task := Some u \<rparr> \<rparr>)
    | None \<Rightarrow> updateNode scanned node = node)"
  by (auto simp add: updateNode_def split: option.splits)

text \<open>
  C5. A refresh keeps every node, in place: the node list has the same length, and the
  node at each index keeps its identifier and its position. The fresh task is looked up
  by comparing its identifier with the node's identifier and nothing else. When there is
  one, the new node is the old node with the task payload replaced by the first such
  task, every other field (those of the \<open>more\<close> part included) as it was; a node that
  carries no task payload, which the declared node type excludes, stays as it is. When
  there is none, the node is unchanged.
\<close>

theorem updateNodes_matches_by_id_and_keeps_position:
  assumes "i < length (c_nodes c)"
  shows "length (c_nodes (updateNodes scanned c)) = length (c_nodes c)
       \<and> n_id (c_nodes (updateNodes scanned c) ! i) = n_id (c_nodes c ! i)
       \<and> n_position (c_nodes (updateNodes scanned c) ! i) = n_position (c_nodes c ! i)
       \<and> (case find (\<lambda>t. t_id t = n_id (c_nodes c ! i)) scanned of
            Some u \<Rightarrow> c_nodes (updateNodes scanned c) ! i =
                       (if d_task (n_data (c_nodes c ! i)) = None then c_nodes c ! i
                        else (c_nodes c ! i)\<lparr> n_data := (n_data (c_nodes c ! i))\<lparr> d_task := Some u \<rparr> \<rparr>)
          | None \<Rightarrow> c_nodes (updateNodes scanned c) ! i = c_nodes c ! i)"
proof -
  have nth: "c_nodes (updateNodes scanned c) ! i = updateNode scanned (c_nodes c ! i)"
    using assms by (simp add: updateNodes_def)
  show ?thesis
    unfolding nth using updateNode_cases [where node = "c_nodes c ! i" and scanned = scanned]
    by (simp add: updateNodes_def updateNode_id updateNode_position)
qed

text \<open>
  The example of the specification: node \<open>N1\<close> at \<open>(40, 70)\<close>, refreshed with a fresh task
  of the same identifier, carries the fresh task and stays at \<open>(40, 70)\<close>.
\<close>

theorem updateNodes_matches_by_id_and_keeps_position_witness:
  "(0::nat) < length (c_nodes (exCanvas [mkNode DEFAULT_SETTINGS (str ''N1'') \<lparr> pos_x = 40, pos_y = 70 \<rparr>
                                  (exTask (str ''N1'') (str ''old'') [])] []))
   \<and> map (\<lambda>n. (n_position n, d_task (n_data n)))
       (c_nodes (updateNodes [exTask (str ''N1'') (str ''new'') []]
          (exCanvas [mkNode DEFAULT_SETTINGS (str ''N1'') \<lparr> pos_x = 40, pos_y = 70 \<rparr>
                       (exTask (str ''N1'') (str ''old'') [])] [])))
     = [(\<lparr> pos_x = 40, pos_y = 70 \<rparr>, Some (exTask (str ''N1'') (str ''new'') []))]"
  using updateNodes_matches_by_id_and_keeps_position
    [where i = 0
       and c = "exCanvas [mkNode DEFAULT_SETTINGS (str ''N1'') \<lparr> pos_x = 40, pos_y = 70 \<rparr>
                       (exTask (str ''N1'') (str ''old'') [])] []"
       and scanned = "[exTask (str ''N1'') (str ''new'') []]"]
  by (simp add: exCanvas_def mkNode_def nodeData_def exTask_def updateNodes_def updateNode_def)

lemma restoreNodes_fields:
  "map (\<lambda>n. (n_id n, n_position n, d_task (n_data n))) (restoreNodes settings saved)
     = map (\<lambda>s. (sn_id s, sn_position s, sn_taskData s)) (filter (\<lambda>s. sn_taskData s \<noteq> None) saved)"
  by (induction saved) (auto simp: restoreNodes_def mkNode_def nodeData_def split: option.splits)

lemma restoreNodes_ids:
  "map n_id (restoreNodes settings saved) = map sn_id (filter (\<lambda>s. sn_taskData s \<noteq> None) saved)"
  by (induction saved) (auto simp: restoreNodes_def mkNode_def split: option.splits)

lemma restoreNodes_member:
  "sn \<in> set saved \<Longrightarrow> sn_taskData sn = Some td \<Longrightarrow>
   mkNode settings (sn_id sn) (sn_position sn) td \<in> set (restoreNodes settings saved)"
  by (induction saved) (auto simp: restoreNodes_def split: option.splits)

lemma loadInitialData_nodes:
  "g_nodes (c_graphData c) \<noteq> [] \<Longrightarrow>
   c_nodes (loadInitialData settings newTasks c) = restoreNodes settings (g_nodes (c_graphData c))"
  by (simp add: loadInitialData_def loadSavedData_def Let_def)

text \<open>
  C6, as the code has it. On load, every node of the saved snapshot that carries task
  data is restored with its saved identifier, its saved position and that task data,
  in the order of the snapshot, whatever the freshly parsed tasks are; the nodes of the
  snapshot that carry no task data are left out.
\<close>

theorem loadInitialData_restores_saved_nodes_with_task_data:
  assumes "sn \<in> set (g_nodes (c_graphData c))" and "sn_taskData sn = Some td"
  shows "(\<exists>n \<in> set (c_nodes (loadInitialData settings newTasks c)).
            n_id n = sn_id sn \<and> n_position n = sn_position sn \<and> d_task (n_data n) = Some td)
       \<and> map (\<lambda>n. (n_id n, n_position n, d_task (n_data n)))
             (c_nodes (loadInitialData settings newTasks c))
         = map (\<lambda>s. (sn_id s, sn_position s, sn_taskData s))
             (filter (\<lambda>s. sn_taskData s \<noteq> None) (g_nodes (c_graphData c)))
       \<and> c_nodes (loadInitialData settings newTasks c) = c_nodes (loadInitialData settings [] c)"
proof -
  have ne: "g_nodes (c_graphData c) \<noteq> []"
    using assms(1) by auto
  have mem: "mkNode settings (sn_id sn) (sn_position sn) td
               \<in> set (c_nodes (loadInitialData settings newTasks c))"
    using restoreNodes_member [OF assms] by (simp add: loadInitialData_nodes [OF ne])
  have fields: "n_id (mkNode settings (sn_id sn) (sn_position sn) td) = sn_id sn
      \<and> n_position (mkNode settings (sn_id sn) (sn_position sn) td) = sn_position sn
      \<and> d_task (n_data (mkNode settings (sn_id sn) (sn_position sn) td)) = Some td"
    by (simp add: mkNode_def nodeData_def)
  from mem fields have ex: "\<exists>n \<in> set (c_nodes (loadInitialData settings newTasks c)).
            n_id n = sn_id sn \<and> n_position n = sn_position sn \<and> d_task (n_data n) = Some td"
    by blast
  show ?thesis
    using ex by (simp add: loadInitialData_nodes [OF ne] restoreNodes_fields)
qed

text \<open>
  The example of the specification: the snapshot holds \<open>N1\<close> at \<open>(40, 70)\<close> with its task
  data, the fresh scan holds no task at all, and the canvas gets \<open>N1\<close> at \<open>(40, 70)\<close>.
\<close>

theorem loadInitialData_restores_saved_nodes_with_task_data_witness:
  "exSaved (str ''N1'') (Some (exTask (str ''N1'') (str ''a'') []))
     \<in> set (g_nodes (c_graphData (exCanvas [] [exSaved (str ''N1'') (Some (exTask (str ''N1'') (str ''a'') []))])))
   \<and> sn_taskData (exSaved (str ''N1'') (Some (exTask (str ''N1'') (str ''a'') [])))
       = Some (exTask (str ''N1'') (str ''a'') [])
   \<and> map (\<lambda>n. (n_id n, n_position n, d_task (n_data n)))
       (c_nodes (loadInitialData DEFAULT_SETTINGS []
          (exCanvas [] [exSaved (str ''N1'') (Some (exTask (str ''N1'') (str ''a'') []))])))
     = [(str ''N1'', \<lparr> pos_x = 40, pos_y = 70 \<rparr>, Some (exTask (str ''N1'') (str ''a'') []))]"
  using loadInitialData_restores_saved_nodes_with_task_data
    [where sn = "exSaved (str ''N1'') (Some (exTask (str ''N1'') (str ''a'') []))"
       and c = "exCanvas [] [exSaved (str ''N1'') (Some (exTask (str ''N1'') (str ''a'') []))]"
       and td = "exTask (str ''N1'') (str ''a'') []"
       and settings = DEFAULT_SETTINGS and newTasks = "[]"]
  by (simp add: exCanvas_def exSaved_def DEFAULT_GRAPH_DATA_def)

text \<open>
  C6, as stated, fails: a snapshot node without task data is not restored. The snapshot
  holds \<open>N1\<close> with task data and \<open>N2\<close> without; after the load the canvas holds \<open>N1\<close>
  only.
\<close>

theorem loadInitialData_drops_saved_node_without_task_data:
  "map sn_id (g_nodes (c_graphData
       (exCanvas [] [exSaved (str ''N1'') (Some (exTask (str ''N1'') (str ''a'') [])),
                     exSaved (str ''N2'') None])))
     = [str ''N1'', str ''N2'']
   \<and> map n_id (c_nodes (loadInitialData DEFAULT_SETTINGS []
       (exCanvas [] [exSaved (str ''N1'') (Some (exTask (str ''N1'') (str ''a'') [])),
                     exSaved (str ''N2'') None])))
     = [str ''N1'']"
  by (simp add: loadInitialData_def loadSavedData_def exCanvas_def exSaved_def
      DEFAULT_GRAPH_DATA_def restoreNodes_def mkNode_def Let_def)

lemma map_n_id_updateNode:
  "map (n_id \<circ> updateNode scanned) ns = map n_id ns"
  by (rule map_cong) (simp_all add: updateNode_id)

lemma filterNode_id: "n_id (filterNode noTags ts tags sts node) = n_id node"
  by (simp add: filterNode_def Let_def split: option.splits)

lemma map_n_id_filterNode:
  "map (n_id \<circ> filterNode noTags ts tags sts) ns = map n_id ns"
  by (rule map_cong) (simp_all add: filterNode_id)

lemma map_n_id_unhide:
  "map (n_id \<circ> (\<lambda>node. node\<lparr> n_hidden := Some False \<rparr>)) ns = map n_id ns"
  by (rule map_cong) simp_all

lemma addTaskToCanvas_present:
  "resolveTask tasks taskId taskData = Some task \<Longrightarrow>
   t_id task \<in> set (map n_id nodes) \<Longrightarrow>
   addTaskToCanvas settings tasks nodes taskId position taskData c = c"
  by (auto simp: addTaskToCanvas_def list_ex_iff)

text \<open>
  When the callback is the one of a render of the current nodes, the addition keeps the
  identifiers free of duplicates.
\<close>

lemma addTaskToCanvas_current_unique:
  "uniqueNodeIds (c_nodes c) \<Longrightarrow>
   uniqueNodeIds (c_nodes (addTaskToCanvas settings tasks (c_nodes c) taskId position taskData c))"
  by (auto simp: uniqueNodeIds_def addTaskToCanvas_def mkNode_def list_ex_iff split: option.splits)

lemma addTaskToCanvas_graphData:
  "c_graphData (addTaskToCanvas settings tasks nodes taskId position taskData c) = c_graphData c"
  by (simp add: addTaskToCanvas_def split: option.splits)

lemma uniqueViewIds_render: "uniqueViewIds v \<Longrightarrow> uniqueViewIds (render v)"
  by (simp add: uniqueViewIds_def render_def)

text \<open>
  Each operation keeps the identifiers free of duplicates when it runs on a view that
  has rendered its state, and so does every sequence of operations with a render before
  each of them; the snapshot that is loaded is taken to be free of duplicates at the
  start.
\<close>

lemma canvasStep_rendered_unique:
  "uniqueViewIds v \<Longrightarrow> uniqueViewIds (canvasStep settings noTags op (render v))"
proof (cases op)
  case OpRender
  assume "uniqueViewIds v"
  then show ?thesis using OpRender by (simp add: uniqueViewIds_def render_def)
next
  case OpLoadSavedData
  assume "uniqueViewIds v"
  then show ?thesis using OpLoadSavedData
    by (auto simp: uniqueViewIds_def uniqueNodeIds_def uniqueSavedIds_def render_def
        loadSavedData_def Let_def restoreNodes_ids distinct_map_filter)
next
  case (OpUpdateNodes scanned)
  assume "uniqueViewIds v"
  then show ?thesis using OpUpdateNodes
    by (simp add: uniqueViewIds_def uniqueNodeIds_def render_def updateNodes_def map_n_id_updateNode)
next
  case (OpAddTaskToCanvas taskId position taskData)
  assume "uniqueViewIds v"
  then show ?thesis using OpAddTaskToCanvas
    by (simp add: uniqueViewIds_def render_def addTaskToCanvas_current_unique
        addTaskToCanvas_graphData)
next
  case (OpDeleteNode nodeId)
  assume "uniqueViewIds v"
  then show ?thesis using OpDeleteNode
    by (auto simp: uniqueViewIds_def uniqueNodeIds_def render_def deleteNode_def distinct_map_filter)
next
  case OpSave
  assume "uniqueViewIds v"
  then show ?thesis using OpSave
    by (auto simp: uniqueViewIds_def uniqueNodeIds_def uniqueSavedIds_def render_def
        saveGraphDataImmediate_def comp_def saveNode_def)
next
  case (OpApplyFilters tags sts)
  assume "uniqueViewIds v"
  then show ?thesis using OpApplyFilters
    by (simp add: uniqueViewIds_def uniqueNodeIds_def render_def applyFilters_def Let_def
        map_n_id_unhide map_n_id_filterNode)
qed

lemma canvasSteps_rendered_unique:
  "uniqueViewIds v \<Longrightarrow>
   uniqueViewIds (foldl (\<lambda>v op. canvasStep settings noTags op (render v)) v ops)"
  by (induction ops arbitrary: v) (simp_all add: canvasStep_rendered_unique)

text \<open>
  C10. Node identifiers do not stay unique. The test of \<^verbatim>\<open>addTaskToCanvas\<close> for a node
  already on the canvas reads the nodes of the last render, and the append receives the
  nodes as they are when it runs. On a canvas that shows the node \<open>N1\<close>, two requests to
  add the task \<open>N2\<close> that arrive before the next render both pass the test: the canvas
  holds \<open>N1\<close>, \<open>N2\<close>, \<open>N2\<close>. After the render the save writes the three nodes to the
  snapshot, and a load restores the three. The second request is rejected only when
  a render lies between the two.
\<close>

theorem addTaskToCanvas_before_render_duplicates_node_id:
  "map n_id (c_nodes (v_canvas (canvasSteps DEFAULT_SETTINGS []
       [exAdd (str ''N2''), exAdd (str ''N2'')] (exView [exNode (str ''N1'')]))))
     = [str ''N1'', str ''N2'', str ''N2'']
   \<and> map sn_id (g_nodes (c_graphData (v_canvas (canvasSteps DEFAULT_SETTINGS []
       [exAdd (str ''N2''), exAdd (str ''N2''), OpRender, OpSave] (exView [exNode (str ''N1'')])))))
     = [str ''N1'', str ''N2'', str ''N2'']
   \<and> map n_id (c_nodes (v_canvas (canvasSteps DEFAULT_SETTINGS []
       [exAdd (str ''N2''), exAdd (str ''N2''), OpRender, OpSave, OpDeleteNode (str ''N1''),
        OpLoadSavedData] (exView [exNode (str ''N1'')]))))
     = [str ''N1'', str ''N2'', str ''N2'']
   \<and> map n_id (c_nodes (v_canvas (canvasSteps DEFAULT_SETTINGS []
       [exAdd (str ''N2''), OpRender, exAdd (str ''N2'')] (exView [exNode (str ''N1'')]))))
     = [str ''N1'', str ''N2'']"
  by (simp add: canvasSteps_def exView_def exCanvas_def exAdd_def exNode_def exTask_def
      addTaskToCanvas_def resolveTask_def mkNode_def render_def saveGraphDataImmediate_def
      saveNode_def deleteNode_def loadSavedData_def restoreNodes_def nodeData_def Let_def
      str_def)

section \<open>Properties of the document mutator\<close>

lemma findIndex_Some_iff:
  "findIndex P xs = Some i \<longleftrightarrow> i < length xs \<and> P (xs ! i) \<and> (\<forall>j<i. \<not> P (xs ! j))"
proof (induction xs arbitrary: i)
  case Nil
  then show ?case by simp
next
  case (Cons x xs)
  show ?case
  proof (cases "P x")
    case True
    then show ?thesis by (cases i) auto
  next
    case False
    show ?thesis
    proof (cases i)
      case 0
      then show ?thesis using False by auto
    next
      case (Suc k)
      have "(\<forall>j<Suc k. \<not> P ((x # xs) ! j)) \<longleftrightarrow> (\<forall>j<k. \<not> P (xs ! j))"
        using False by (auto simp: less_Suc_eq_0_disj)
      then show ?thesis using False Suc Cons.IH [of k] by auto
    qed
  qed
qed

lemma findIndex_None_iff: "findIndex P xs = None \<longleftrightarrow> (\<forall>x \<in> set xs. \<not> P x)"
  by (induction xs) auto

lemma findIndex_less: "findIndex P xs = Some i \<Longrightarrow> i < length xs"
  by (simp add: findIndex_Some_iff)

lemma js_startsWith_iff: "js_startsWith s p \<longleftrightarrow> (\<exists>b. s = p @ b)"
  by (induction s p rule: js_startsWith.induct) auto

lemma js_includes_iff: "js_includes s n \<longleftrightarrow> (\<exists>a b. s = a @ n @ b)"
proof (induction s)
  case Nil
  then show ?case by auto
next
  case (Cons c cs)
  show ?case
  proof
    assume "js_includes (c # cs) n"
    then consider "js_startsWith (c # cs) n" | "js_includes cs n" by auto
    then show "\<exists>a b. c # cs = a @ n @ b"
    proof cases
      case 1
      then obtain b where "c # cs = n @ b" by (auto simp: js_startsWith_iff)
      then have "c # cs = [] @ n @ b" by simp
      then show ?thesis by blast
    next
      case 2
      then obtain a b where "cs = a @ n @ b" using Cons.IH by auto
      then have "c # cs = (c # a) @ n @ b" by simp
      then show ?thesis by blast
    qed
  next
    assume "\<exists>a b. c # cs = a @ n @ b"
    then obtain a b where ab: "c # cs = a @ n @ b" by auto
    show "js_includes (c # cs) n"
    proof (cases a)
      case Nil
      then have "js_startsWith (c # cs) n" using ab by (auto simp: js_startsWith_iff)
      then show ?thesis by simp
    next
      case (Cons x a')
      then have "cs = a' @ n @ b" using ab by simp
      then have "js_includes cs n" using Cons.IH by blast
      then show ?thesis by simp
    qed
  qed
qed

lemma js_includes_append: "js_includes s n \<Longrightarrow> js_includes (s @ t) n"
  by (auto simp: js_includes_iff) (metis append.assoc)


lemma splitLines_noLF_single: "LF \<notin> set l \<Longrightarrow> splitLines l = [l]"
  by (induction l rule: splitLines.induct) (auto simp: consHead_def)

lemma splitLines_line_LF:
  "LF \<notin> set l \<Longrightarrow> splitLines (l @ LF # rest) = dropCR l # splitLines rest"
proof (induction l rule: splitLines.induct)
  case 1
  show ?case by (cases rest) (simp_all add: dropCR_def)
next
  case (2 c)
  then show ?case by (cases rest) (auto simp: dropCR_def consHead_def)
next
  case (3 c d ds)
  have ne: "c \<noteq> LF" "\<not> (c = CR \<and> d = LF)"
    using 3(4) by auto
  have "LF \<notin> set (d # ds)"
    using 3(4) by auto
  then have "splitLines ((d # ds) @ LF # rest) = dropCR (d # ds) # splitLines rest"
    using 3(3) [OF ne] by simp
  moreover have "dropCR (c # d # ds) = c # dropCR (d # ds)"
    by (simp add: dropCR_def)
  ultimately show ?case using ne by (simp add: consHead_def)
qed

lemma splitLines_joinLines:
  "M \<noteq> [] \<Longrightarrow> \<forall>l \<in> set M. LF \<notin> set l \<Longrightarrow> splitLines (joinLines M) = reread M"
proof (induction M rule: induct_list012)
  case 1
  then show ?case by simp
next
  case (2 l)
  then show ?case by (simp add: joinLines_def reread_def splitLines_noLF_single)
next
  case (3 l m r)
  then have "splitLines (joinLines (m # r)) = reread (m # r)" by simp
  then show ?case using 3(4)
    by (simp add: joinLines_def reread_def splitLines_line_LF)
qed

lemma splitLines_nonempty: "splitLines s \<noteq> []"
  by (induction s rule: splitLines.induct) (auto simp: consHead_def split: list.splits)

lemma splitLines_noLF: "l \<in> set (splitLines s) \<Longrightarrow> LF \<notin> set l"
proof (induction s arbitrary: l rule: splitLines.induct)
  case 1
  then show ?case by simp
next
  case (2 c)
  then show ?case by (auto split: if_splits)
next
  case (3 c d ds)
  show ?case
  proof (cases "c = LF")
    case True
    then show ?thesis using 3 by auto
  next
    case False
    show ?thesis
    proof (cases "c = CR \<and> d = LF")
      case True
      then show ?thesis using 3 False by auto
    next
      case False2: False
      then obtain h t where ht: "splitLines (d # ds) = h # t"
        using splitLines_nonempty [of "d # ds"] by (cases "splitLines (d # ds)") auto
      have "l = c # h \<or> l \<in> set t"
        using 3(4) False False2 ht by (auto simp: consHead_def)
      moreover have "LF \<notin> set h" "\<forall>x \<in> set t. LF \<notin> set x"
        using 3(3) [OF False False2] ht by auto
      ultimately show ?thesis using False by auto
    qed
  qed
qed

lemma length_reread: "M \<noteq> [] \<Longrightarrow> length (reread M) = length M"
  by (simp add: reread_def)

lemma reread_nth:
  "k < length M \<Longrightarrow> reread M ! k = M ! k \<or> reread M ! k = dropCR (M ! k)"
proof -
  assume k: "k < length M"
  then have ne: "M \<noteq> []" by auto
  show ?thesis
  proof (cases "k = length M - 1")
    case True
    then show ?thesis using ne by (simp add: reread_def nth_append last_conv_nth)
  next
    case False
    then have "k < length (butlast M)" using k by simp
    then show ?thesis by (simp add: reread_def nth_append nth_butlast)
  qed
qed

lemma js_includes_dropCR: "js_includes (dropCR l) n \<Longrightarrow> js_includes l n"
proof -
  assume a: "js_includes (dropCR l) n"
  show ?thesis
  proof (cases "l \<noteq> [] \<and> last l = CR")
    case True
    then have "l = dropCR l @ [CR]"
      using append_butlast_last_id [of l] by (simp add: dropCR_def)
    then show ?thesis using js_includes_append [OF a, of "[CR]"] by simp
  next
    case False
    then show ?thesis using a by (auto simp: dropCR_def)
  qed
qed

lemma reread_includes:
  "k < length M \<Longrightarrow> js_includes (reread M ! k) n \<Longrightarrow> js_includes (M ! k) n"
  using reread_nth [of k M] js_includes_dropCR by auto


text \<open>
  \<open>findIndex\<close> on a list that changed: the line found kept or gained the property, and no
  other line gained it.
\<close>

lemma findIndex_stable_Some:
  assumes "findIndex P L = Some i" and "length L' = length L"
    and "\<And>k. k < length L \<Longrightarrow> k \<noteq> i \<Longrightarrow> Q (L' ! k) \<Longrightarrow> P (L ! k)"
    and "P (L ! i) \<Longrightarrow> Q (L' ! i)"
  shows "findIndex Q L' = Some i"
proof -
  have i: "i < length L" "P (L ! i)" "\<forall>j<i. \<not> P (L ! j)"
    using assms(1) by (auto simp: findIndex_Some_iff)
  have "\<forall>j<i. \<not> Q (L' ! j)"
  proof (intro allI impI)
    fix j assume "j < i"
    then show "\<not> Q (L' ! j)" using i assms(3) [of j] by auto
  qed
  then show ?thesis
    using i assms(2) assms(4) by (simp add: findIndex_Some_iff)
qed

lemma findIndex_stable_None:
  assumes "findIndex P L = None" and "length L' = length L" and "i < length L"
    and "\<And>k. k < length L \<Longrightarrow> k \<noteq> i \<Longrightarrow> Q (L' ! k) \<Longrightarrow> P (L ! k)"
  shows "findIndex Q L' = None \<or> findIndex Q L' = Some i"
proof (cases "Q (L' ! i)")
  case True
  have "\<forall>j<i. \<not> Q (L' ! j)"
  proof (intro allI impI)
    fix j assume j: "j < i"
    then have "\<not> P (L ! j)"
      using assms(1) assms(3) by (simp add: findIndex_None_iff)
    then show "\<not> Q (L' ! j)" using j assms(3) assms(4) [of j] by auto
  qed
  then show ?thesis using True assms(2,3) by (simp add: findIndex_Some_iff)
next
  case False
  have "\<forall>x \<in> set L'. \<not> Q x"
  proof
    fix x assume "x \<in> set L'"
    then obtain k where k: "k < length L'" "x = L' ! k"
      by (auto simp: in_set_conv_nth)
    show "\<not> Q x"
    proof (cases "k = i")
      case True
      then show ?thesis using False k by simp
    next
      case ki: False
      have "\<not> P (L ! k)"
        using assms(1) k assms(2) by (simp add: findIndex_None_iff)
      then show ?thesis using assms(4) [of k] k ki assms(2) by auto
    qed
  qed
  then show ?thesis by (simp add: findIndex_None_iff)
qed

lemma findTaskLineByIdOrText_less:
  "findTaskLineByIdOrText L tid ttext = Some i \<Longrightarrow> i < length L"
  by (auto simp: findTaskLineByIdOrText_def findIndex_less split: option.splits)

lemma findTaskLineByIdOrText_stable:
  assumes f: "findTaskLineByIdOrText L tid ttext = Some i" and len: "length L' = length L"
    and others: "\<And>k n. k < length L \<Longrightarrow> k \<noteq> i \<Longrightarrow> js_includes (L' ! k) n \<Longrightarrow> js_includes (L ! k) n"
    and same: "\<And>n. js_includes (L ! i) n \<Longrightarrow> js_includes (L' ! i) n"
  shows "findTaskLineByIdOrText L' tid ttext = Some i"
proof -
  let ?n1 = "ID_SIGN @ str '' '' @ tid"
  let ?n2 = "str ''[[id:: '' @ tid @ str '']]''"
  let ?P = "\<lambda>n line. js_includes line n"
  have i: "i < length L" using f by (rule findTaskLineByIdOrText_less)
  have S: "\<And>n. findIndex (?P n) L = Some i \<Longrightarrow> findIndex (?P n) L' = Some i"
    using findIndex_stable_Some [where P = "?P n" and Q = "?P n" for n] len others same by blast
  have N: "\<And>n. findIndex (?P n) L = None \<Longrightarrow>
              findIndex (?P n) L' = None \<or> findIndex (?P n) L' = Some i"
    using findIndex_stable_None [where P = "?P n" and Q = "?P n" for n] len others i by blast
  show ?thesis
  proof (cases "findIndex (?P ?n1) L")
    case (Some a)
    then have "a = i" using f by (simp add: findTaskLineByIdOrText_def)
    then show ?thesis using S [of ?n1] Some by (simp add: findTaskLineByIdOrText_def)
  next
    case n1: None
    show ?thesis
    proof (cases "findIndex (?P ?n2) L")
      case (Some a)
      then have "a = i" using f n1 by (simp add: findTaskLineByIdOrText_def)
      then have "findIndex (?P ?n2) L' = Some i" using S [of ?n2] Some by simp
      then show ?thesis using N [OF n1] by (auto simp: findTaskLineByIdOrText_def)
    next
      case n2: None
      then have "findIndex (?P ttext) L = Some i"
        using f n1 by (simp add: findTaskLineByIdOrText_def)
      then have "findIndex (?P ttext) L' = Some i" using S [of ttext] by simp
      then show ?thesis using N [OF n1] N [OF n2] by (auto simp: findTaskLineByIdOrText_def)
    qed
  qed
qed

lemma readAt_less: "i < length xs \<Longrightarrow> readAt xs i = Inr (xs ! i)"
  by (simp add: readAt_def)

lemma addStar_inline_unfold:
  "addStar_inline tid ttext doc =
     (case findTaskLineByIdOrText (splitLines doc) tid ttext of
        None \<Rightarrow> Inr doc
      | Some i \<Rightarrow> if js_includes (splitLines doc ! i) [STAR] then Inr doc
                  else Inr (joinLines ((splitLines doc)[i := splitLines doc ! i @ [0x20, STAR]])))"
  by (auto simp: addStar_inline_def Let_def readAt_less findTaskLineByIdOrText_less split: option.splits)

lemma addStar_inline_again:
  assumes f: "findTaskLineByIdOrText (splitLines doc) tid ttext = Some i"
    and ns: "\<not> js_includes (splitLines doc ! i) [STAR]"
  shows "addStar_inline tid ttext (joinLines ((splitLines doc)[i := splitLines doc ! i @ [0x20, STAR]]))
         = Inr (joinLines ((splitLines doc)[i := splitLines doc ! i @ [0x20, STAR]]))"
proof -
  let ?L = "splitLines doc"
  let ?M = "?L[i := ?L ! i @ [0x20, STAR]]"
  have i: "i < length ?L" using f by (rule findTaskLineByIdOrText_less)
  have Mne: "?M \<noteq> []" using i by auto
  have noLF: "\<forall>l \<in> set ?M. LF \<notin> set l"
  proof
    fix l assume "l \<in> set ?M"
    then have "l \<in> set ?L \<or> l = ?L ! i @ [0x20, STAR]"
      using set_update_subset_insert [of ?L i] by auto
    moreover have "LF \<notin> set (?L ! i)" using i splitLines_noLF [of "?L ! i" doc] by simp
    ultimately show "LF \<notin> set l" using splitLines_noLF [of l doc] by (auto simp: LF_def STAR_def)
  qed
  have rr: "splitLines (joinLines ?M) = reread ?M"
    using splitLines_joinLines [OF Mne noLF] .
  have len: "length (reread ?M) = length ?L" using Mne by (simp add: length_reread)
  have at_i: "reread ?M ! i = ?L ! i @ [0x20, STAR]"
    using reread_nth [of i ?M] i by (auto simp: dropCR_def CR_def STAR_def)
  have others: "\<And>k n. k < length ?L \<Longrightarrow> k \<noteq> i \<Longrightarrow> js_includes (reread ?M ! k) n
                  \<Longrightarrow> js_includes (?L ! k) n"
    using reread_includes [where M = ?M] by (metis length_list_update nth_list_update_neq)
  have same: "\<And>n. js_includes (?L ! i) n \<Longrightarrow> js_includes (reread ?M ! i) n"
    using at_i js_includes_append by simp
  have f2: "findTaskLineByIdOrText (reread ?M) tid ttext = Some i"
    using findTaskLineByIdOrText_stable [OF f len others same] by blast
  have star: "js_includes (reread ?M ! i) [STAR]"
    unfolding at_i js_includes_iff by (rule exI [of _ "?L ! i @ [0x20]"], rule exI [of _ "[]"]) simp
  show ?thesis
    unfolding addStar_inline_unfold [of tid ttext "joinLines ?M"] rr using f2 star by simp
qed



lemma addStar_inline_idem:
  "\<exists>d1. addStar_inline tid ttext doc = Inr d1 \<and> addStar_inline tid ttext d1 = Inr d1"
proof (cases "findTaskLineByIdOrText (splitLines doc) tid ttext")
  case None
  then show ?thesis by (simp add: addStar_inline_unfold)
next
  case (Some i)
  show ?thesis
  proof (cases "js_includes (splitLines doc ! i) [STAR]")
    case True
    then show ?thesis using Some by (simp add: addStar_inline_unfold)
  next
    case False
    then show ?thesis
      using addStar_inline_again [OF Some False] Some by (simp add: addStar_inline_unfold [of tid ttext doc])
  qed
qed

lemma process_idem:
  assumes "\<And>doc. \<exists>d1. callback doc = Inr d1 \<and> callback d1 = Inr d1"
  shows "\<exists>v1. process path callback v = Inr v1 \<and> process path callback v1 = Inr v1"
proof (cases "v path")
  case None
  then show ?thesis by (simp add: process_def)
next
  case (Some doc)
  obtain d1 where d1: "callback doc = Inr d1" "callback d1 = Inr d1"
    using assms by blast
  have "process path callback v = Inr (v(path \<mapsto> d1))"
    using Some d1 by (simp add: process_def)
  moreover have "process path callback (v(path \<mapsto> d1)) = Inr (v(path \<mapsto> d1))"
    using d1 by (simp add: process_def)
  ultimately show ?thesis by blast
qed

text \<open>
  C8. Adding the star to an inline task twice gives the text that adding it once gives,
  for every document text, task identifier and task text: the callback never throws,
  and applied to its own result it returns that result. When the line it finds already
  holds the star glyph, it returns the text it was given. The same holds for the whole
  operation on the vault.
\<close>

theorem addStar_inline_idempotent:
  "(\<exists>d1. addStar_inline tid ttext doc = Inr d1 \<and> addStar_inline tid ttext d1 = Inr d1)
   \<and> (findTaskLineByIdOrText (splitLines doc) tid ttext = Some i
        \<and> js_includes (splitLines doc ! i) [STAR]
        \<longrightarrow> addStar_inline tid ttext doc = Inr doc)
   \<and> (t_type task = type_inline
        \<longrightarrow> (\<exists>v1. addStarToTaskInVault task v = Inr v1 \<and> addStarToTaskInVault task v1 = Inr v1))"
proof -
  have a: "\<exists>d1. addStar_inline tid ttext doc = Inr d1 \<and> addStar_inline tid ttext d1 = Inr d1"
    by (rule addStar_inline_idem)
  have b: "findTaskLineByIdOrText (splitLines doc) tid ttext = Some i
        \<and> js_includes (splitLines doc ! i) [STAR]
        \<longrightarrow> addStar_inline tid ttext doc = Inr doc"
    by (simp add: addStar_inline_unfold)
  have c: "t_type task = type_inline
        \<longrightarrow> (\<exists>v1. addStarToTaskInVault task v = Inr v1 \<and> addStarToTaskInVault task v1 = Inr v1)"
    using process_idem [of "addStar_inline (t_id task) (t_text task)" "t_link task" v]
      addStar_inline_idem [of "t_id task" "t_text task"]
    by (auto simp: addStarToTaskInVault_def)
  show ?thesis using a b c by blast
qed

text \<open>
  The task \<open>foo\<close> on the line \<^verbatim>\<open>- [ ] foo\<close>: the first addition appends the star, the
  second leaves the starred line as it is.
\<close>

theorem addStar_inline_idempotent_witness:
  "addStar_inline (str ''T1'') (str ''foo'') (str ''- [ ] foo'') = Inr (str ''- [ ] foo '' @ [STAR])
   \<and> addStar_inline (str ''T1'') (str ''foo'') (str ''- [ ] foo '' @ [STAR])
       = Inr (str ''- [ ] foo '' @ [STAR])
   \<and> findTaskLineByIdOrText (splitLines (str ''- [ ] foo '' @ [STAR])) (str ''T1'') (str ''foo'') = Some 0
   \<and> js_includes (splitLines (str ''- [ ] foo '' @ [STAR]) ! 0) [STAR]"
proof -
  have once: "addStar_inline (str ''T1'') (str ''foo'') (str ''- [ ] foo'')
                = Inr (str ''- [ ] foo '' @ [STAR])"
    by code_simp
  have found: "findTaskLineByIdOrText (splitLines (str ''- [ ] foo '' @ [STAR])) (str ''T1'') (str ''foo'') = Some 0"
    by code_simp
  have starred: "js_includes (splitLines (str ''- [ ] foo '' @ [STAR]) ! 0) [STAR]"
    by code_simp
  have twice: "addStar_inline (str ''T1'') (str ''foo'') (str ''- [ ] foo '' @ [STAR])
                = Inr (str ''- [ ] foo '' @ [STAR])"
    using addStar_inline_idempotent
      [where tid = "str ''T1''" and ttext = "str ''foo''" and doc = "str ''- [ ] foo''"]
      once by simp
  show ?thesis using once twice found starred by blast
qed

subsection \<open>Status of inline tasks\<close>

lemma replaceStatus_skip:
  "0x5B \<notin> set pre \<Longrightarrow> isStatusCode c \<Longrightarrow>
   replaceStatus symbol (pre @ 0x5B # c # 0x5D # rest) = pre @ symbol @ rest"
proof (induction pre)
  case Nil
  then show ?case by simp
next
  case (Cons a pre)
  then have a: "a \<noteq> 0x5B" by auto
  obtain b c' r where "pre @ 0x5B # c # 0x5D # rest = b # c' # r"
    by (cases pre; cases "tl pre") auto
  then show ?case using Cons a by simp
qed

text \<open>
  A marker that holds any other character is passed over, whatever the line is: the
  replacement goes on behind it.
\<close>

lemma replaceStatus_other:
  "\<not> isStatusCode c \<Longrightarrow>
   replaceStatus symbol (0x5B # c # 0x5D # rest) = 0x5B # c # 0x5D # replaceStatus symbol rest"
proof -
  assume n: "\<not> isStatusCode c"
  have n5: "\<not> isStatusCode 0x5D" by code_simp
  have a: "replaceStatus symbol (0x5B # c # 0x5D # rest) = 0x5B # replaceStatus symbol (c # 0x5D # rest)"
    using n by simp
  have b: "replaceStatus symbol (c # 0x5D # rest) = c # replaceStatus symbol (0x5D # rest)"
    using n5 by (cases rest) simp_all
  have c: "replaceStatus symbol (0x5D # rest) = 0x5D # replaceStatus symbol rest"
  proof (cases rest)
    case Nil
    then show ?thesis by simp
  next
    case (Cons y ys)
    then show ?thesis by (cases ys) simp_all
  qed
  show ?thesis using a b c by simp
qed

lemma replaceStatus_keeps_other_marker:
  "0x5B \<notin> set pre \<Longrightarrow> \<not> isStatusCode c \<Longrightarrow>
   replaceStatus symbol (pre @ 0x5B # c # 0x5D # rest)
     = pre @ 0x5B # c # 0x5D # replaceStatus symbol rest"
proof (induction pre)
  case Nil
  then show ?case using replaceStatus_other by simp
next
  case (Cons a pre)
  then have "a \<noteq> 0x5B" by auto
  obtain x y zs where "pre @ 0x5B # c # 0x5D # rest = x # y # zs"
    by (cases pre; cases "tl pre") auto
  then show ?case using Cons \<open>a \<noteq> 0x5B\<close> by simp
qed

lemma splitChar_noSep_single: "sep \<notin> set l \<Longrightarrow> splitChar sep l = [l]"
  by (induction l) (auto simp: consHead_def)

lemma splitChar_line_sep:
  "sep \<notin> set l \<Longrightarrow> splitChar sep (l @ sep # rest) = l # splitChar sep rest"
  by (induction l) (auto simp: consHead_def)

lemma splitChar_joinLines:
  "M \<noteq> [] \<Longrightarrow> \<forall>l \<in> set M. LF \<notin> set l \<Longrightarrow> splitChar LF (joinLines M) = M"
proof (induction M rule: induct_list012)
  case 1
  then show ?case by simp
next
  case (2 l)
  then show ?case by (simp add: joinLines_def splitChar_noSep_single)
next
  case (3 l m r)
  then have "splitChar LF (joinLines (m # r)) = m # r" by simp
  then show ?case using 3(4) by (simp add: joinLines_def splitChar_line_sep)
qed

lemma statusSymbols_shape: "\<exists>k. statusSymbols s = [0x5B, k, 0x5D] \<and> statusOfCode k = Some s \<and> \<not> isLineTerminator k"
  by (cases s) (simp_all add: statusSymbols_def str_def statusOfCode_def isLineTerminator_def)

lemma dropWhile_ws_prefix:
  "list_all isWS ws \<Longrightarrow> \<not> isWS x \<Longrightarrow> dropWhile isWS (ws @ x # r) = x # r"
  by (induction ws) auto

lemma parseStatus_marker:
  assumes "list_all isWS ws"
  shows "parseStatus (ws @ str ''- '' @ statusSymbols s @ rest) = Some s"
proof -
  obtain k where k: "statusSymbols s = [0x5B, k, 0x5D]" "statusOfCode k = Some s" "\<not> isLineTerminator k"
    using statusSymbols_shape by blast
  have "\<not> isWS 0x2D" by (simp add: isWS_def)
  then have "dropWhile isWS (ws @ str ''- '' @ statusSymbols s @ rest) = 0x2D # 0x20 # 0x5B # k # 0x5D # rest"
    using dropWhile_ws_prefix [OF assms, of "0x2D"] k by (simp add: str_def)
  then show ?thesis using k by (simp add: parseStatus_def taskStatusChar_def)
qed


lemma isWS_not_bracket: "list_all isWS ws \<Longrightarrow> 0x5B \<notin> set ws"
  by (induction ws) (auto simp: isWS_def)


text \<open>
  C7, as the code has it. The status table of the source and the parser's table agree:
  for each of the four statuses the marker written is a bracketed code that parses back
  to that status. Setting status \<open>s\<close> on an inline task works on the line that
  \<^verbatim>\<open>findTaskLineByIdOrText\<close> finds; when that line is a checklist line (white space, the
  dash, a space, the bracketed code) whose code is one of the four, exactly that code is
  replaced: the new text, split at line feeds as the scan does, is the old line list
  with this one line changed to carry the marker of \<open>s\<close>, and the line parses to
  status \<open>s\<close>.
\<close>

theorem updateTaskStatus_inline_sets_marker:
  assumes f: "findTaskLineByIdOrText (splitLines doc) tid ttext = Some i"
    and line: "splitLines doc ! i = ws @ str ''- '' @ [0x5B, c, 0x5D] @ rest"
    and ws: "list_all isWS ws" and c: "isStatusCode c"
  shows "\<exists>doc'. updateTaskStatus_inline tid ttext s doc = Inr doc'
          \<and> splitChar LF doc' = (splitLines doc)[i := ws @ str ''- '' @ statusSymbols s @ rest]
          \<and> parseStatus (splitChar LF doc' ! i) = Some s"
proof -
  let ?L = "splitLines doc"
  let ?new = "ws @ str ''- '' @ statusSymbols s @ rest"
  let ?M = "?L[i := ?new]"
  have i: "i < length ?L" using f by (rule findTaskLineByIdOrText_less)
  have nb: "0x5B \<notin> set (ws @ str ''- '')"
    using isWS_not_bracket [OF ws] by (simp add: str_def)
  have "replaceStatus (statusSymbols s) ((ws @ str ''- '') @ 0x5B # c # 0x5D # rest)
          = (ws @ str ''- '') @ statusSymbols s @ rest"
    using replaceStatus_skip [OF nb c] .
  then have rep: "replaceStatus (statusSymbols s) (?L ! i) = ?new"
    using line by simp
  have res: "updateTaskStatus_inline tid ttext s doc = Inr (joinLines ?M)"
    using f i rep by (simp add: updateTaskStatus_inline_def Let_def readAt_less)
  obtain k where k: "statusSymbols s = [0x5B, k, 0x5D]" "\<not> isLineTerminator k"
    using statusSymbols_shape by blast
  have old: "LF \<notin> set (?L ! i)" using i splitLines_noLF [of "?L ! i" doc] by simp
  have kLF: "k \<noteq> LF" using k(2) by (auto simp: isLineTerminator_def LF_def)
  have newLF: "LF \<notin> set ?new"
    using old line k(1) kLF by (auto simp: str_def LF_def)
  have noLF: "\<forall>l \<in> set ?M. LF \<notin> set l"
  proof
    fix l assume "l \<in> set ?M"
    then have "l \<in> set ?L \<or> l = ?new"
      using set_update_subset_insert [of ?L i] by auto
    then show "LF \<notin> set l" using newLF splitLines_noLF [of l doc] by auto
  qed
  have Mne: "?M \<noteq> []" using i by auto
  have rescan: "splitChar LF (joinLines ?M) = ?M"
    using splitChar_joinLines [OF Mne noLF] .
  have "parseStatus (?M ! i) = Some s"
    using i parseStatus_marker [OF ws] by simp
  then show ?thesis using res rescan by simp
qed


text \<open>The line \<^verbatim>\<open>- [ ] foo\<close> set to done becomes \<^verbatim>\<open>- [x] foo\<close>, which parses to done.\<close>

theorem updateTaskStatus_inline_sets_marker_witness:
  "findTaskLineByIdOrText (splitLines (str ''- [ ] foo'')) (str ''T1'') (str ''foo'') = Some 0
   \<and> splitLines (str ''- [ ] foo'') ! 0 = [] @ str ''- '' @ [0x5B, 0x20, 0x5D] @ str '' foo''
   \<and> list_all isWS []
   \<and> isStatusCode 0x20
   \<and> updateTaskStatus_inline (str ''T1'') (str ''foo'') st_done (str ''- [ ] foo'')
       = Inr (str ''- [x] foo'')
   \<and> parseStatus (splitChar LF (str ''- [x] foo'') ! 0) = Some st_done"
proof -
  have f: "findTaskLineByIdOrText (splitLines (str ''- [ ] foo'')) (str ''T1'') (str ''foo'') = Some 0"
    by code_simp
  have l: "splitLines (str ''- [ ] foo'') ! 0 = [] @ str ''- '' @ [0x5B, 0x20, 0x5D] @ str '' foo''"
    by code_simp
  have w: "list_all isWS []"
    by simp
  have c: "isStatusCode 0x20"
    by code_simp
  have e: "updateTaskStatus_inline (str ''T1'') (str ''foo'') st_done (str ''- [ ] foo'')
             = Inr (str ''- [x] foo'')"
    by code_simp
  obtain doc' where d: "updateTaskStatus_inline (str ''T1'') (str ''foo'') st_done (str ''- [ ] foo'') = Inr doc'"
      "parseStatus (splitChar LF doc' ! 0) = Some st_done"
    using updateTaskStatus_inline_sets_marker [OF f l w c, of st_done] by blast
  have "doc' = str ''- [x] foo''"
    using d(1) e by simp
  then have "parseStatus (splitChar LF (str ''- [x] foo'') ! 0) = Some st_done"
    using d(2) by simp
  then show ?thesis using f l w c e by blast
qed

text \<open>
  C7, as stated, fails on a checklist line whose code is none of the four. On
  \<^verbatim>\<open>- [X] see [x] foo\<close>, setting the status to todo leaves the marker \<^verbatim>\<open>[X]\<close> alone and
  rewrites the later \<^verbatim>\<open>[x]\<close>: the status code of the line is still \<^verbatim>\<open>X\<close>, and the line
  does not parse to todo.
\<close>

theorem updateTaskStatus_inline_leaves_other_codes:
  "updateTaskStatus_inline (str ''T1'') (str ''foo'') st_todo (str ''- [X] see [x] foo'')
     = Inr (str ''- [X] see [ ] foo'')
   \<and> taskStatusChar (str ''- [X] see [ ] foo'') = Some 0x58
   \<and> parseStatus (str ''- [X] see [ ] foo'') \<noteq> Some st_todo"
  by code_simp

subsection \<open>Dependency markers of inline tasks\<close>

text \<open>
  Under the csv style, a line is first searched for a comma-separated marker. A single
  marker is such a marker with one entry, so whenever the line holds individual markers
  that search succeeds, and the conversion of individual markers is never reached.
\<close>

lemma matchIndividual_matchCsv: "matchIndividual s = Some m \<Longrightarrow> matchCsv s \<noteq> None"
  by (auto simp: matchIndividual_def matchCsv_def Let_def split: list.splits if_splits option.splits)

lemma firstMatch_here: "M s \<noteq> None \<Longrightarrow> firstMatch M s \<noteq> None"
  by (cases s) auto

lemma firstMatch_later: "firstMatch M s \<noteq> None \<Longrightarrow> firstMatch M (c # s) \<noteq> None"
  by (auto split: option.splits)

lemma individual_found_by_csv:
  "allIndividualMatches line \<noteq> [] \<Longrightarrow> firstMatch matchCsv line \<noteq> None"
proof (induction line rule: allIndividualMatches.induct)
  case 1
  then show ?case by simp
next
  case (2 c cs)
  show ?case
  proof (cases "matchIndividual (c # cs)")
    case None
    then have "allIndividualMatches cs \<noteq> []" using 2(3) by simp
    then have "firstMatch matchCsv cs \<noteq> None" using 2(1) [OF None] by simp
    then show ?thesis by (rule firstMatch_later)
  next
    case (Some m)
    then have "matchCsv (c # cs) \<noteq> None" by (rule matchIndividual_matchCsv)
    then show ?thesis by (rule firstMatch_here)
  qed
qed


lemma addStopToLine_csv_None:
  assumes "\<not> dataviewIdPresent line" and "firstMatch matchDataviewDeps line = None"
    and "firstMatch matchCsv line = None"
  shows "addStopToLine hash csv line = Some (line @ [0x20, STOP_SIGN, 0x20] @ hash)"
proof -
  have "allIndividualMatches line = []" using assms(3) individual_found_by_csv by blast
  then show ?thesis using assms by (simp add: addStopToLine_def)
qed

lemma addStopToLine_csv_Some:
  assumes "\<not> dataviewIdPresent line" and "firstMatch matchDataviewDeps line = None"
    and "firstMatch matchCsv line = Some (pre, m)"
  shows "addStopToLine hash csv line =
          (if List.member (map js_trim (splitChar 0x2C (m_group m))) hash then Some line
           else Some (replaceRegex matchCsv
                 ([STOP_SIGN, 0x20] @ joinWith (str '','') (map js_trim (splitChar 0x2C (m_group m)) @ [hash]))
                 line))"
  using assms by (simp add: addStopToLine_def Let_def)

text \<open>
  C2. The line holds the two individual markers \<open>aaa111\<close> and \<open>bbb222\<close> and no
  Dataview marker; \<open>ccc333\<close> is added under the csv style. The first marker is taken for
  a csv list with one entry and extended; the second stays an individual marker. The
  result is not the single marker \<open>aaa111,bbb222,ccc333\<close>, and it still holds two
  markers.
\<close>

theorem addSign_csv_keeps_second_individual_marker:
  "addSign_inline (str ''task'') sign_stop (str ''ccc333'') csv
     (str ''- [ ] task '' @ [STOP_SIGN] @ str '' aaa111 '' @ [STOP_SIGN] @ str '' bbb222'')
   = Inr (str ''- [ ] task '' @ [STOP_SIGN] @ str '' aaa111,ccc333 '' @ [STOP_SIGN] @ str '' bbb222'')
   \<and> str ''- [ ] task '' @ [STOP_SIGN] @ str '' aaa111,ccc333 '' @ [STOP_SIGN] @ str '' bbb222''
     \<noteq> str ''- [ ] task '' @ [STOP_SIGN] @ str '' aaa111,bbb222,ccc333''
   \<and> map m_group (allIndividualMatches
        (str ''- [ ] task '' @ [STOP_SIGN] @ str '' aaa111,ccc333 '' @ [STOP_SIGN] @ str '' bbb222''))
     = [str ''aaa111'', str ''bbb222'']"
  by code_simp

subsection \<open>No operation throws, and a missing target changes nothing\<close>

text \<open>
  Every read \<^verbatim>\<open>lines[i]\<close> whose value has a method called on it is within the array:
  the loops over the frontmatter stay below the end boundary, which is a line of the
  file, also where lines are spliced out on the way.
\<close>

lemma frontmatterEnd_bounds:
  "frontmatterEnd lines = Some e \<Longrightarrow> 0 < e \<and> e < length lines"
  by (auto simp: frontmatterEnd_def findIndex_less split: list.splits if_splits)

lemma frontmatterEnd_None_iff:
  "frontmatterEnd lines = None \<longleftrightarrow> frontmatterMissing lines"
  by (auto simp: frontmatterEnd_def frontmatterMissing_def findIndex_None_iff list_ex_iff
      split: list.splits)

lemma findFrom_ok: "b \<le> length lines \<Longrightarrow> \<exists>r. findFrom P lines i b = Inr r"
proof (induction P lines i b rule: findFrom.induct)
  case (1 P lines i b)
  show ?case
  proof (cases "i < b")
    case False
    then show ?thesis by (subst findFrom.simps) simp
  next
    case True
    then have r: "readAt lines i = Inr (lines ! i)"
      using 1(2) by (simp add: readAt_def)
    show ?thesis
    proof (cases "P (lines ! i)")
      case True
      then show ?thesis using \<open>i < b\<close> r by (subst findFrom.simps) simp
    next
      case False
      have "\<exists>r. findFrom P lines (Suc i) b = Inr r"
        using 1(1) [OF \<open>i < b\<close> r False 1(2)] .
      then show ?thesis using \<open>i < b\<close> r False by (subst findFrom.simps) simp
    qed
  qed
qed

lemma removeTagLoop_ok:
  "fmEnd \<le> length lines \<Longrightarrow> \<exists>r. removeTagLoop tag lines i fmEnd = Inr r"
proof (induction tag lines i fmEnd rule: removeTagLoop.induct)
  case (1 tag lines i fmEnd)
  show ?case
  proof (cases "i < fmEnd")
    case False
    then show ?thesis by (subst removeTagLoop.simps) simp
  next
    case True
    then have r: "readAt lines i = Inr (lines ! i)"
      using 1(2) by (simp add: readAt_def)
    show ?thesis
    proof (cases "matchesListItem (lines ! i) \<and> listItemValue (lines ! i) \<noteq> Some tag")
      case True
      then have "\<exists>r. removeTagLoop tag lines (Suc i) fmEnd = Inr r"
        using 1(1) [OF \<open>i < fmEnd\<close> r _ _ 1(2)] by simp
      then show ?thesis using \<open>i < fmEnd\<close> r True by (subst removeTagLoop.simps) simp
    next
      case False
      then show ?thesis using \<open>i < fmEnd\<close> r by (subst removeTagLoop.simps) auto
    qed
  qed
qed

lemma addTagLoop_ok:
  "fmEnd \<le> length lines \<Longrightarrow> \<exists>r. addTagLoop tag lines j fmEnd = Inr r"
proof (induction tag lines j fmEnd rule: addTagLoop.induct)
  case (1 tag lines j fmEnd)
  show ?case
  proof (cases "j < fmEnd")
    case False
    then show ?thesis by (subst addTagLoop.simps) simp
  next
    case True
    then have r: "readAt lines j = Inr (lines ! j)"
      using 1(2) by (simp add: readAt_def)
    show ?thesis
    proof (cases "matchesListItem (lines ! j) \<and> listItemValue (lines ! j) \<noteq> Some tag")
      case True
      then have "\<exists>r. addTagLoop tag lines (Suc j) fmEnd = Inr r"
        using 1(1) [OF \<open>j < fmEnd\<close> r _ _ 1(2)] by simp
      then show ?thesis using \<open>j < fmEnd\<close> r True by (subst addTagLoop.simps) simp
    next
      case False
      then show ?thesis using \<open>j < fmEnd\<close> r by (subst addTagLoop.simps) auto
    qed
  qed
qed

lemma blockedByEnd_ok:
  "bound \<le> length lines \<Longrightarrow> \<exists>r. blockedByEnd lines i bound = Inr r"
proof (induction lines i bound rule: blockedByEnd.induct)
  case (1 lines i bound)
  show ?case
  proof (cases "i < bound")
    case False
    then show ?thesis by (subst blockedByEnd.simps) simp
  next
    case True
    then have r: "readAt lines i = Inr (lines ! i)"
      using 1(4) by (simp add: readAt_def)
    show ?thesis
    proof (cases "matchesUid2 (lines ! i)")
      case False
      then show ?thesis using True r by (subst blockedByEnd.simps) simp
    next
      case uid: True
      show ?thesis
      proof (cases "Suc i < length lines")
        case False
        have "\<exists>r. blockedByEnd lines (Suc i) bound = Inr r"
          using 1(3) [OF True r uid False 1(4)] .
        then show ?thesis using True r uid False by (subst blockedByEnd.simps) simp
      next
        case lt: True
        then have r2: "readAt lines (Suc i) = Inr (lines ! Suc i)"
          by (simp add: readAt_def)
        show ?thesis
        proof (cases "matchesReltype4 (lines ! Suc i)")
          case True
          have "\<exists>r. blockedByEnd lines (Suc (Suc i)) bound = Inr r"
            using 1(1) [OF \<open>i < bound\<close> r uid lt r2 True 1(4)] .
          then show ?thesis using \<open>i < bound\<close> r uid lt r2 True by (subst blockedByEnd.simps) simp
        next
          case False
          have "\<exists>r. blockedByEnd lines (Suc i) bound = Inr r"
            using 1(2) [OF True r uid lt r2 False 1(4)] .
          then show ?thesis using True r uid lt r2 False by (subst blockedByEnd.simps) simp
        qed
      qed
    qed
  qed
qed

lemma removeDependencyLoop_ok:
  "fmEnd \<le> int (length lines) \<Longrightarrow> \<exists>r. removeDependencyLoop ident lines i fmEnd = Inr r"
proof (induction ident lines i fmEnd rule: removeDependencyLoop.induct)
  case (1 ident lines i fmEnd)
  show ?case
  proof (cases "int i < fmEnd")
    case False
    then show ?thesis by (subst removeDependencyLoop.simps) simp
  next
    case True
    then have il: "i < length lines" using 1(3) by simp
    then have r: "readAt lines i = Inr (lines ! i)"
      by (simp add: readAt_def)
    show ?thesis
    proof (cases "matchesUidAny (lines ! i) \<and> js_includes (lines ! i) ident")
      case False
      then have "\<exists>r. removeDependencyLoop ident lines (Suc i) fmEnd = Inr r"
        using 1(2) [OF True r _ 1(3)] by simp
      then show ?thesis using True r False by (subst removeDependencyLoop.simps) auto
    next
      case m: True
      let ?lines1 = "spliceOut i lines"
      let ?lines2 = "if i < length ?lines1 \<and> matchesReltypeAny (?lines1 ! i)
                     then spliceOut i ?lines1 else ?lines1"
      have l1: "length ?lines1 = length lines - 1"
        using il by (simp add: spliceOut_def)
      have "length lines - 2 \<le> length ?lines2"
        using l1 by (auto simp: spliceOut_def)
      then have "fmEnd - 2 \<le> int (length ?lines2)"
        using 1(3) by linarith
      then have "\<exists>r. removeDependencyLoop ident ?lines2 i (fmEnd - 2) = Inr r"
        using 1(1) [OF True r m refl refl] by simp
      then show ?thesis using True r m by (subst removeDependencyLoop.simps) (simp add: Let_def)
    qed
  qed
qed


lemma findIndex_SomeD: "findIndex P xs = Some i \<Longrightarrow> \<exists>x \<in> set xs. P x"
  using findIndex_None_iff [of P xs] by auto

lemma findTaskLineByIdOrText_None_iff:
  "findTaskLineByIdOrText L tid ttext = None \<longleftrightarrow> lineMissing L tid ttext"
proof -
  have "findTaskLineByIdOrText L tid ttext = None \<longleftrightarrow>
          findIndex (\<lambda>line. js_includes line (ID_SIGN @ str '' '' @ tid)) L = None
        \<and> findIndex (\<lambda>line. js_includes line (str ''[[id:: '' @ tid @ str '']]'')) L = None
        \<and> findIndex (\<lambda>line. js_includes line ttext) L = None"
    by (simp add: findTaskLineByIdOrText_def split: option.splits)
  then show ?thesis
    by (simp add: lineMissing_def findIndex_None_iff list_ex_iff) blast
qed

lemma findTaskLineWithFallback_None_iff:
  "findTaskLineWithFallback rx L tid ttext = None
     \<longleftrightarrow> lineMissing L tid ttext \<and> coreLineMissing rx L ttext"
proof -
  have "findTaskLineWithFallback rx L tid ttext = None \<longleftrightarrow>
          findTaskLineByIdOrText L tid ttext = None
        \<and> findIndex (\<lambda>line. js_includes (coreText rx line) (coreText rx ttext)
                              \<or> js_includes (coreText rx ttext) (coreText rx line)) L = None"
    by (simp add: findTaskLineWithFallback_def Let_def split: option.splits)
  then show ?thesis
    by (simp add: findTaskLineByIdOrText_None_iff coreLineMissing_def findIndex_None_iff list_ex_iff)
qed

lemma findTaskLineWithFallback_less:
  "findTaskLineWithFallback rx L tid ttext = Some i \<Longrightarrow> i < length L"
  by (auto simp: findTaskLineWithFallback_def Let_def findTaskLineByIdOrText_less findIndex_less
      split: option.splits)

lemma findText_None_iff:
  "findIndex (\<lambda>line. js_includes line ttext) L = None \<longleftrightarrow> textMissing L ttext"
  by (simp add: textMissing_def findIndex_None_iff list_ex_iff)

lemma frontmatterEnd_le:
  "frontmatterEnd lines = Some e \<Longrightarrow> e \<le> length lines"
  using frontmatterEnd_bounds [of lines e] by simp

lemma updateTaskStatus_note_ok: "\<exists>r. updateTaskStatus_note s doc = Inr r"
proof (cases "frontmatterEnd (splitLines doc)")
  case None
  then show ?thesis by (simp add: updateTaskStatus_note_def)
next
  case (Some e)
  obtain r where "findFrom (\<lambda>l. js_startsWith l (str ''status:'')) (splitLines doc) 1 e = Inr r"
    using findFrom_ok [OF frontmatterEnd_le [OF Some]] by blast
  then show ?thesis using Some by (cases r) (simp_all add: updateTaskStatus_note_def)
qed

lemma updateTaskStatus_inline_ok: "\<exists>r. updateTaskStatus_inline tid ttext s doc = Inr r"
  by (cases "findTaskLineByIdOrText (splitLines doc) tid ttext")
    (simp_all add: updateTaskStatus_inline_def Let_def readAt_less findTaskLineByIdOrText_less)

lemma removeTag_note_ok: "\<exists>r. removeTag_note tag doc = Inr r"
proof (cases "frontmatterEnd (splitLines doc)")
  case None
  then show ?thesis by (simp add: removeTag_note_def)
next
  case (Some e)
  show ?thesis
  proof (cases "findTagsLine (splitLines doc) e")
    case None
    then show ?thesis using Some by (simp add: removeTag_note_def)
  next
    case (Some i)
    obtain r where "removeTagLoop tag (splitLines doc) (Suc i) e = Inr r"
      using removeTagLoop_ok [OF frontmatterEnd_le [OF \<open>frontmatterEnd (splitLines doc) = Some e\<close>]]
      by blast
    then show ?thesis using Some \<open>frontmatterEnd (splitLines doc) = Some e\<close>
      by (simp add: removeTag_note_def)
  qed
qed

lemma removeTag_inline_ok: "\<exists>r. removeTag_inline rx tid ttext tag doc = Inr r"
  by (cases "findTaskLineWithFallback rx (splitLines doc) tid ttext")
    (simp_all add: removeTag_inline_def Let_def readAt_less findTaskLineWithFallback_less)

lemma addTag_note_ok: "\<exists>r. addTag_note tag doc = Inr r"
proof (cases "frontmatterEnd (splitLines doc)")
  case None
  then show ?thesis by (simp add: addTag_note_def)
next
  case (Some e)
  show ?thesis
  proof (cases "findTagsLine (splitLines doc) e")
    case None
    then show ?thesis using Some by (simp add: addTag_note_def)
  next
    case (Some i)
    obtain r where "addTagLoop tag (splitLines doc) (Suc i) e = Inr r"
      using addTagLoop_ok [OF frontmatterEnd_le [OF \<open>frontmatterEnd (splitLines doc) = Some e\<close>]]
      by blast
    then show ?thesis using Some \<open>frontmatterEnd (splitLines doc) = Some e\<close>
      by (cases r) (simp_all add: addTag_note_def)
  qed
qed

lemma addTag_inline_ok: "\<exists>r. addTag_inline rx tid ttext tag doc = Inr r"
  by (cases "findTaskLineWithFallback rx (splitLines doc) tid ttext")
    (simp_all add: addTag_inline_def Let_def readAt_less findTaskLineWithFallback_less)

lemma addStar_note_ok: "\<exists>r. addStar_note doc = Inr r"
proof (cases "frontmatterEnd (splitLines doc)")
  case None
  then show ?thesis by (simp add: addStar_note_def)
next
  case (Some e)
  obtain r where r: "findFrom matchesStarred (splitLines doc) 1 e = Inr r"
    using findFrom_ok [OF frontmatterEnd_le [OF Some]] by blast
  obtain q where q: "findFrom matchesPriority (splitLines doc) 1 e = Inr q"
    using findFrom_ok [OF frontmatterEnd_le [OF Some]] by blast
  show ?thesis using Some r q by (cases r) (simp_all add: addStar_note_def Let_def)
qed

lemma addStar_inline_ok: "\<exists>r. addStar_inline tid ttext doc = Inr r"
  using addStar_inline_idem [of tid ttext doc] by blast

lemma removeStar_note_ok: "\<exists>r. removeStar_note doc = Inr r"
proof (cases "frontmatterEnd (splitLines doc)")
  case None
  then show ?thesis by (simp add: removeStar_note_def)
next
  case (Some e)
  obtain r where "findFrom matchesStarred (splitLines doc) 1 e = Inr r"
    using findFrom_ok [OF frontmatterEnd_le [OF Some]] by blast
  then show ?thesis using Some by (cases r) (simp_all add: removeStar_note_def)
qed

lemma removeStar_inline_ok: "\<exists>r. removeStar_inline tid ttext doc = Inr r"
  by (cases "findTaskLineByIdOrText (splitLines doc) tid ttext")
    (simp_all add: removeStar_inline_def Let_def readAt_less findTaskLineByIdOrText_less)

lemma addSign_inline_ok: "\<exists>r. addSign_inline ttext type hash style doc = Inr r"
proof (cases "findIndex (\<lambda>line. js_includes line ttext) (splitLines doc)")
  case None
  then show ?thesis by (simp add: addSign_inline_def)
next
  case (Some i)
  then have "readAt (splitLines doc) i = Inr (splitLines doc ! i)"
    by (simp add: readAt_less findIndex_less)
  then show ?thesis using Some
    by (cases "case type of sign_id \<Rightarrow> addIdToLine hash style (splitLines doc ! i)
                          | sign_stop \<Rightarrow> addStopToLine hash style (splitLines doc ! i)")
       (simp_all add: addSign_inline_def Let_def)
qed

lemma removeSign_inline_ok: "\<exists>r. removeSign_inline ttext type hash doc = Inr r"
  by (cases "findIndex (\<lambda>line. js_includes line ttext) (splitLines doc)")
    (simp_all add: removeSign_inline_def Let_def readAt_less findIndex_less)

lemma addDependency_note_ok: "\<exists>r. addDependency_note fromText doc = Inr r"
proof (cases "frontmatterEnd (splitLines doc)")
  case None
  then show ?thesis by (simp add: addDependency_note_def)
next
  case (Some e)
  let ?L = "splitLines doc"
  let ?ident = "str ''[['' @ fromText @ str '']]''"
  have e: "0 < e" "e < length ?L" using frontmatterEnd_bounds [OF Some] by auto
  obtain r where r: "findFrom (\<lambda>l. js_includes l (str ''uid:'') \<and> js_includes l ?ident) ?L 1 e = Inr r"
    using findFrom_ok [OF frontmatterEnd_le [OF Some]] by blast
  have len: "0 + 1 + length (take (e - 1) (drop 1 ?L)) \<le> length ?L"
    using e by simp
  show ?thesis
  proof (cases r)
    case (Some i)
    then show ?thesis using \<open>frontmatterEnd ?L = Some e\<close> r by (simp add: addDependency_note_def Let_def)
  next
    case None
    show ?thesis
    proof (cases "findIndex matchesBlockedBy (take (e - 1) (drop 1 ?L))")
      case None
      then show ?thesis using \<open>frontmatterEnd ?L = Some e\<close> r \<open>r = None\<close>
        by (simp add: addDependency_note_def Let_def)
    next
      case (Some b)
      obtain k where "blockedByEnd ?L (0 + 1 + b + 1) (0 + 1 + length (take (e - 1) (drop 1 ?L))) = Inr k"
        using blockedByEnd_ok [OF len] by blast
      then show ?thesis using Some \<open>frontmatterEnd ?L = Some e\<close> r \<open>r = None\<close>
        by (simp add: addDependency_note_def Let_def)
    qed
  qed
qed

lemma removeDependency_note_ok: "\<exists>r. removeDependency_note fromId doc = Inr r"
proof (cases "frontmatterEnd (splitLines doc)")
  case None
  then show ?thesis by (simp add: removeDependency_note_def)
next
  case (Some e)
  have "int e \<le> int (length (splitLines doc))"
    using frontmatterEnd_le [OF Some] by simp
  then obtain r where
    "removeDependencyLoop (str ''[['' @ basename fromId @ str '']]'') (splitLines doc) 1 (int e) = Inr r"
    using removeDependencyLoop_ok by blast
  then show ?thesis using Some by (simp add: removeDependency_note_def)
qed

lemma callbackOf_ok: "\<exists>r. callbackOf rx task op doc = Inr r"
  by (cases op)
    (simp_all add: updateTaskStatus_note_ok updateTaskStatus_inline_ok addTag_note_ok
      addTag_inline_ok removeTag_note_ok removeTag_inline_ok addStar_note_ok addStar_inline_ok
      removeStar_note_ok removeStar_inline_ok addSign_inline_ok removeSign_inline_ok
      addDependency_note_ok removeDependency_note_ok)

text \<open>
  An operation other than a tag operation on an inline task returns the text it was
  given when its target cannot be located.
\<close>

lemma callbackOf_missing:
  "targetMissing task op doc \<Longrightarrow> \<not> usesCoreText task op \<Longrightarrow> callbackOf rx task op doc = Inr doc"
proof (cases op)
  case (SetStatus s)
  assume "targetMissing task op doc"
  then show ?thesis using SetStatus
    by (auto simp: updateTaskStatus_note_def updateTaskStatus_inline_def
        frontmatterEnd_None_iff [symmetric] findTaskLineByIdOrText_None_iff [symmetric]
        split: if_splits)
next
  case (AddTag tag)
  assume "targetMissing task op doc" "\<not> usesCoreText task op"
  then show ?thesis using AddTag
    by (auto simp: usesCoreText_def addTag_note_def frontmatterEnd_None_iff [symmetric]
        split: if_splits)
next
  case (RemoveTag tag)
  assume "targetMissing task op doc" "\<not> usesCoreText task op"
  then show ?thesis using RemoveTag
    by (auto simp: usesCoreText_def removeTag_note_def frontmatterEnd_None_iff [symmetric]
        split: if_splits)
next
  case AddStar
  assume "targetMissing task op doc"
  then show ?thesis using AddStar
    by (auto simp: addStar_note_def addStar_inline_def
        frontmatterEnd_None_iff [symmetric] findTaskLineByIdOrText_None_iff [symmetric]
        split: if_splits)
next
  case RemoveStar
  assume "targetMissing task op doc"
  then show ?thesis using RemoveStar
    by (auto simp: removeStar_note_def removeStar_inline_def
        frontmatterEnd_None_iff [symmetric] findTaskLineByIdOrText_None_iff [symmetric]
        split: if_splits)
next
  case (AddSign type hash style)
  assume "targetMissing task op doc"
  then show ?thesis using AddSign
    by (simp add: addSign_inline_def findText_None_iff [symmetric])
next
  case (RemoveSign type hash)
  assume "targetMissing task op doc"
  then show ?thesis using RemoveSign
    by (simp add: removeSign_inline_def findText_None_iff [symmetric])
next
  case (AddNoteDependency fromText)
  assume "targetMissing task op doc"
  then show ?thesis using AddNoteDependency
    by (simp add: addDependency_note_def frontmatterEnd_None_iff [symmetric])
next
  case (RemoveNoteDependency fromId)
  assume "targetMissing task op doc"
  then show ?thesis using RemoveNoteDependency
    by (simp add: removeDependency_note_def frontmatterEnd_None_iff [symmetric])
qed

text \<open>
  A tag operation on an inline task returns the text it was given when, in addition,
  the lookup by core text finds no line.
\<close>

lemma callbackOf_missing_coreText:
  "targetMissing task op doc \<Longrightarrow> usesCoreText task op \<Longrightarrow>
   coreLineMissing rx (splitLines doc) (t_text task) \<Longrightarrow> callbackOf rx task op doc = Inr doc"
proof (cases op)
  case (AddTag tag)
  assume "targetMissing task op doc" "usesCoreText task op"
    "coreLineMissing rx (splitLines doc) (t_text task)"
  then show ?thesis
    using AddTag findTaskLineWithFallback_None_iff [of rx "splitLines doc" "t_id task" "t_text task"]
    by (auto simp: usesCoreText_def addTag_inline_def split: if_splits)
next
  case (RemoveTag tag)
  assume "targetMissing task op doc" "usesCoreText task op"
    "coreLineMissing rx (splitLines doc) (t_text task)"
  then show ?thesis
    using RemoveTag findTaskLineWithFallback_None_iff [of rx "splitLines doc" "t_id task" "t_text task"]
    by (auto simp: usesCoreText_def removeTag_inline_def split: if_splits)
qed (simp_all add: usesCoreText_def)

lemma process_ok:
  "(\<And>doc. \<exists>r. callback doc = Inr r) \<Longrightarrow> \<exists>v'. process path callback v = Inr v'"
proof -
  assume a: "\<And>doc. \<exists>r. callback doc = Inr r"
  show ?thesis
  proof (cases "v path")
    case None
    then show ?thesis by (simp add: process_def)
  next
    case (Some doc)
    obtain r where "callback doc = Inr r" using a by blast
    then show ?thesis using Some by (simp add: process_def)
  qed
qed

lemma process_no_file: "v path = None \<Longrightarrow> process path callback v = Inr v"
  by (simp add: process_def)

lemma process_unchanged:
  "v path = Some doc \<Longrightarrow> callback doc = Inr doc \<Longrightarrow> process path callback v = Inr v"
  by (simp add: process_def map_upd_triv)

lemma mutateVault_cases:
  "mutateVault rx task op v = Inr v
   \<or> mutateVault rx task op v = process (t_link task) (callbackOf rx task op) v"
  by (cases op)
    (simp_all add: updateTaskStatusInVault_def addTagToTaskInVault_def
      removeTagFromTaskInVault_def addStarToTaskInVault_def removeStarFromTaskInVault_def
      addSignToTaskInFile_def removeSignFromTaskInFile_def addDependencyToNoteTask_def
      removeDependencyFromNoteTask_def fromTaskOf_def)

text \<open>On the vault: no operation throws, and none changes a vault without the file.\<close>

lemma mutateVault_ok: "\<exists>v'. mutateVault rx task op v = Inr v'"
  using mutateVault_cases [of rx task op v]
    process_ok [of "callbackOf rx task op" "t_link task" v] callbackOf_ok [of rx task op]
  by auto

lemma mutateVault_no_file:
  "v (t_link task) = None \<Longrightarrow> mutateVault rx task op v = Inr v"
  using mutateVault_cases [of rx task op v] process_no_file [of v "t_link task"] by auto

lemma mutateVault_missing:
  "v (t_link task) = Some doc \<Longrightarrow> targetMissing task op doc \<Longrightarrow> \<not> usesCoreText task op \<Longrightarrow>
   mutateVault rx task op v = Inr v"
  using mutateVault_cases [of rx task op v]
    process_unchanged [of v "t_link task" doc "callbackOf rx task op"]
    callbackOf_missing [of task op doc rx]
  by auto

lemma mutateVault_missing_coreText:
  "v (t_link task) = Some doc \<Longrightarrow> targetMissing task op doc \<Longrightarrow> usesCoreText task op \<Longrightarrow>
   coreLineMissing rx (splitLines doc) (t_text task) \<Longrightarrow> mutateVault rx task op v = Inr v"
  using mutateVault_cases [of rx task op v]
    process_unchanged [of v "t_link task" doc "callbackOf rx task op"]
    callbackOf_missing_coreText [of task op doc rx]
  by auto

text \<open>
  The lookup by core text on a text with an empty line. The core text of the empty
  string is empty whatever the four regular expressions are: a replacement by the empty
  string leaves it empty, and a replacement by a space leaves at most that space, which
  \<^verbatim>\<open>trim\<close> removes; hence the condition on \<open>rx\<close> below. Every string contains the empty
  one, so an empty line is a match for every task.
\<close>

lemma js_includes_Nil: "js_includes s []"
proof -
  have "s = [] @ [] @ s" by simp
  then show ?thesis unfolding js_includes_iff by blast
qed

lemma coreLine_found_on_empty_line:
  "coreText rx [] = [] \<Longrightarrow> [] \<in> set lines \<Longrightarrow> \<not> coreLineMissing rx lines taskText"
proof -
  assume a: "coreText rx [] = []" "[] \<in> set lines"
  have "js_includes (coreText rx taskText) (coreText rx [])"
    using a(1) by (simp add: js_includes_Nil)
  then show ?thesis using a(2) unfolding coreLineMissing_def list_ex_iff by blast
qed

lemma findTaskLineWithFallback_empty_line:
  "coreText rx [] = [] \<Longrightarrow> [] \<in> set lines \<Longrightarrow>
   \<exists>i. findTaskLineWithFallback rx lines taskId taskText = Some i \<and> i < length lines"
proof -
  assume a: "coreText rx [] = []" "[] \<in> set lines"
  have "findTaskLineWithFallback rx lines taskId taskText \<noteq> None"
    using coreLine_found_on_empty_line [OF a] findTaskLineWithFallback_None_iff by blast
  then show ?thesis using findTaskLineWithFallback_less by fastforce
qed

lemma addTag_inline_at:
  "findTaskLineWithFallback rx (splitLines doc) tid ttext = Some i \<Longrightarrow>
   addTag_inline rx tid ttext tag doc
     = Inr (joinLines ((splitLines doc)[i := js_trim (splitLines doc ! i) @ str '' '' @
              (if js_startsWith tag (str ''#'') then tag else str ''#'' @ tag)]))"
  by (simp add: addTag_inline_def Let_def readAt_less findTaskLineWithFallback_less)

text \<open>
  C3. No operation throws, but adding a tag does not leave alone every text in which
  the task line cannot be located. When no line holds the id or the text of an inline
  task, the tag addition goes on to the first line whose core text contains that of the
  task, or is contained in it, and an empty line is such a line. The file
  \<^verbatim>\<open>- [ ] bar\<close> followed by a line feed holds no line of the task \<open>foo\<close>. Adding the tag
  \<open>x\<close> to \<open>foo\<close> returns another text, whatever the regular expressions are; with
  regular expressions that find nothing to remove, the tag is written on the empty last
  line, and the file in the vault is replaced by that text. Adding a star to the same
  task returns the text as it is.
\<close>

theorem addTag_inline_rewrites_text_without_task_line:
  assumes "coreText rx [] = []"
  shows "targetMissing (exTask (str ''T1'') (str ''foo'') []) (AddTag (str ''x''))
           (str ''- [ ] bar\<newline>'')
     \<and> (\<exists>doc'. callbackOf rx (exTask (str ''T1'') (str ''foo'') []) (AddTag (str ''x''))
                  (str ''- [ ] bar\<newline>'') = Inr doc'
               \<and> doc' \<noteq> str ''- [ ] bar\<newline>'')
     \<and> callbackOf exRegex (exTask (str ''T1'') (str ''foo'') []) (AddTag (str ''x''))
           (str ''- [ ] bar\<newline>'') = Inr (str ''- [ ] bar\<newline> #x'')
     \<and> mutateVault exRegex (exTask (str ''T1'') (str ''foo'') []) (AddTag (str ''x''))
           (exVault (str ''Tasks.md'') (str ''- [ ] bar\<newline>''))
         = Inr (exVault (str ''Tasks.md'') (str ''- [ ] bar\<newline> #x''))
     \<and> callbackOf rx (exTask (str ''T1'') (str ''foo'') []) AddStar
           (str ''- [ ] bar\<newline>'') = Inr (str ''- [ ] bar\<newline>'')"
proof -
  let ?task = "exTask (str ''T1'') (str ''foo'') []"
  let ?doc = "str ''- [ ] bar\<newline>''"
  have lines: "splitLines ?doc = [str ''- [ ] bar'', []]"
    by code_simp
  have missing: "targetMissing ?task (AddTag (str ''x'')) ?doc"
    by code_simp
  have missingStar: "targetMissing ?task AddStar ?doc"
    by code_simp
  have inline: "t_type ?task = type_inline" "t_id ?task = str ''T1''" "t_text ?task = str ''foo''"
    by (simp_all add: exTask_def)
  obtain i where i: "findTaskLineWithFallback rx (splitLines ?doc) (str ''T1'') (str ''foo'') = Some i"
    and "i < length (splitLines ?doc)"
    using findTaskLineWithFallback_empty_line [OF assms, of "splitLines ?doc"] lines by auto
  then have "i = 0 \<or> i = 1" using lines by auto
  moreover have "joinLines ((splitLines ?doc)[0 := js_trim (splitLines ?doc ! 0) @ str '' '' @
        (if js_startsWith (str ''x'') (str ''#'') then str ''x'' else str ''#'' @ str ''x'')]) \<noteq> ?doc"
    by code_simp
  moreover have "joinLines ((splitLines ?doc)[1 := js_trim (splitLines ?doc ! 1) @ str '' '' @
        (if js_startsWith (str ''x'') (str ''#'') then str ''x'' else str ''#'' @ str ''x'')]) \<noteq> ?doc"
    by code_simp
  ultimately have changed: "\<exists>doc'. addTag_inline rx (str ''T1'') (str ''foo'') (str ''x'') ?doc = Inr doc'
      \<and> doc' \<noteq> ?doc"
    using addTag_inline_at [OF i, of "str ''x''"] by auto
  have written: "addTag_inline exRegex (str ''T1'') (str ''foo'') (str ''x'') ?doc
      = Inr (str ''- [ ] bar\<newline> #x'')"
    by code_simp
  have link: "t_link ?task = str ''Tasks.md''" "str ''Tasks.md'' \<noteq> []" "str ''foo'' \<noteq> []"
    by (simp_all add: exTask_def str_def)
  have vault: "mutateVault exRegex ?task (AddTag (str ''x'')) (exVault (str ''Tasks.md'') ?doc)
      = Inr (exVault (str ''Tasks.md'') (str ''- [ ] bar\<newline> #x''))"
    using link inline written by (simp add: addTagToTaskInVault_def process_def exVault_def)
  have star: "callbackOf rx ?task AddStar ?doc = Inr ?doc"
    using callbackOf_missing [OF missingStar] by (simp add: usesCoreText_def)
  show ?thesis
    using missing changed written vault star inline by simp
qed

text \<open>With regular expressions that find nothing to remove.\<close>

theorem addTag_inline_rewrites_text_without_task_line_witness:
  "coreText exRegex [] = []
   \<and> targetMissing (exTask (str ''T1'') (str ''foo'') []) (AddTag (str ''x''))
           (str ''- [ ] bar\<newline>'')
   \<and> (\<exists>doc'. callbackOf exRegex (exTask (str ''T1'') (str ''foo'') []) (AddTag (str ''x''))
                (str ''- [ ] bar\<newline>'') = Inr doc'
             \<and> doc' \<noteq> str ''- [ ] bar\<newline>'')
   \<and> callbackOf exRegex (exTask (str ''T1'') (str ''foo'') []) AddStar
           (str ''- [ ] bar\<newline>'') = Inr (str ''- [ ] bar\<newline>'')"
proof -
  have h: "coreText exRegex [] = []"
    by code_simp
  show ?thesis
    using h addTag_inline_rewrites_text_without_task_line [OF h] by blast
qed

subsection \<open>Tags\<close>

lemma reread_id:
  "M \<noteq> [] \<Longrightarrow> \<forall>l \<in> set M. dropCR l = l \<Longrightarrow> reread M = M"
proof -
  assume ne: "M \<noteq> []" and a: "\<forall>l \<in> set M. dropCR l = l"
  have "map dropCR (butlast M) = butlast M"
    using a by (intro map_idI) (auto dest: in_set_butlastD)
  then show ?thesis using ne by (simp add: reread_def)
qed

lemma nth_spliceIn_before: "k < i \<Longrightarrow> i \<le> length xs \<Longrightarrow> spliceIn i items xs ! k = xs ! k"
  by (simp add: spliceIn_def nth_append)

lemma nth_spliceIn_at:
  "i \<le> length xs \<Longrightarrow> k < length items \<Longrightarrow> spliceIn i items xs ! (i + k) = items ! k"
  by (simp add: spliceIn_def nth_append)

lemma nth_spliceIn_after:
  "i \<le> k \<Longrightarrow> k < length xs \<Longrightarrow> spliceIn i items xs ! (k + length items) = xs ! k"
proof -
  assume ik: "i \<le> k" and k: "k < length xs"
  have e: "k + length items = length (take i xs @ items) + (k - i)"
    using ik k by simp
  have "spliceIn i items xs ! (k + length items) = ((take i xs @ items) @ drop i xs) ! (k + length items)"
    by (simp add: spliceIn_def)
  also have "\<dots> = drop i xs ! (k - i)"
    unfolding e by (rule nth_append_length_plus)
  also have "\<dots> = xs ! k"
    using ik k by simp
  finally show ?thesis .
qed

lemma length_spliceIn: "length (spliceIn i items xs) = length xs + length items"
  by (simp add: spliceIn_def)

lemma set_spliceIn: "set (spliceIn i items xs) = set xs \<union> set items"
proof -
  have "set (take i xs) \<union> set (drop i xs) = set xs"
    by (metis append_take_drop_id set_append)
  then show ?thesis by (auto simp: spliceIn_def)
qed

text \<open>The loop of the tag addition, skipping items that are not the tag.\<close>

lemma addTagLoop_step:
  "j < fmEnd \<Longrightarrow> j < length lines \<Longrightarrow> matchesListItem (lines ! j) \<Longrightarrow>
   listItemValue (lines ! j) \<noteq> Some tag \<Longrightarrow>
   addTagLoop tag lines j fmEnd = addTagLoop tag lines (Suc j) fmEnd"
  by (subst addTagLoop.simps) (simp add: readAt_def)

lemma addTagLoop_found:
  "j < fmEnd \<Longrightarrow> j < length lines \<Longrightarrow> matchesListItem (lines ! j) \<Longrightarrow>
   listItemValue (lines ! j) = Some tag \<Longrightarrow> addTagLoop tag lines j fmEnd = Inr None"
  by (subst addTagLoop.simps) (simp add: readAt_def)

lemma addTagLoop_skip:
  "a \<le> j \<Longrightarrow> j \<le> fmEnd \<Longrightarrow> fmEnd \<le> length lines \<Longrightarrow>
   (\<And>k. a \<le> k \<Longrightarrow> k < j \<Longrightarrow>
      matchesListItem (lines ! k) \<and> listItemValue (lines ! k) \<noteq> Some tag) \<Longrightarrow>
   addTagLoop tag lines a fmEnd = addTagLoop tag lines j fmEnd"
proof (induction "j - a" arbitrary: a)
  case 0
  then show ?case by simp
next
  case (Suc n)
  then have lt: "a < j" by simp
  have "addTagLoop tag lines a fmEnd = addTagLoop tag lines (Suc a) fmEnd"
    using Suc.prems lt by (intro addTagLoop_step) auto
  moreover have "addTagLoop tag lines (Suc a) fmEnd = addTagLoop tag lines j fmEnd"
    using Suc.hyps(2) Suc.prems lt by (intro Suc.hyps(1)) auto
  ultimately show ?case by simp
qed

lemma addTagLoop_Some:
  "addTagLoop tag lines a fmEnd = Inr (Some j) \<Longrightarrow> a \<le> fmEnd \<Longrightarrow> fmEnd \<le> length lines \<Longrightarrow>
   a \<le> j \<and> j \<le> fmEnd
   \<and> (\<forall>k. a \<le> k \<and> k < j \<longrightarrow> matchesListItem (lines ! k) \<and> listItemValue (lines ! k) \<noteq> Some tag)"
proof (induction tag lines a fmEnd rule: addTagLoop.induct)
  case (1 tag lines a fmEnd)
  show ?case
  proof (cases "a < fmEnd")
    case False
    then have "addTagLoop tag lines a fmEnd = Inr (Some a)"
      by (subst addTagLoop.simps) simp
    then show ?thesis using 1(2,3) by auto
  next
    case True
    then have r: "readAt lines a = Inr (lines ! a)"
      using 1(4) by (simp add: readAt_def)
    show ?thesis
    proof (cases "matchesListItem (lines ! a)")
      case False
      then have "addTagLoop tag lines a fmEnd = Inr (Some a)"
        using True r by (subst addTagLoop.simps) simp
      then show ?thesis using 1(2,3) by auto
    next
      case item: True
      show ?thesis
      proof (cases "listItemValue (lines ! a) = Some tag")
        case True
        then have "addTagLoop tag lines a fmEnd = Inr None"
          using \<open>a < fmEnd\<close> r item by (subst addTagLoop.simps) simp
        then show ?thesis using 1(2) by simp
      next
        case False
        then have "addTagLoop tag lines a fmEnd = addTagLoop tag lines (Suc a) fmEnd"
          using True r item by (subst addTagLoop.simps) simp
        then have "addTagLoop tag lines (Suc a) fmEnd = Inr (Some j)"
          using 1(2) by simp
        then have ih: "Suc a \<le> j \<and> j \<le> fmEnd
           \<and> (\<forall>k. Suc a \<le> k \<and> k < j \<longrightarrow>
                  matchesListItem (lines ! k) \<and> listItemValue (lines ! k) \<noteq> Some tag)"
          using 1(1) [OF True r item False] True 1(4) by simp
        have "\<forall>k. a \<le> k \<and> k < j \<longrightarrow>
                  matchesListItem (lines ! k) \<and> listItemValue (lines ! k) \<noteq> Some tag"
        proof (intro allI impI)
          fix k assume k: "a \<le> k \<and> k < j"
          show "matchesListItem (lines ! k) \<and> listItemValue (lines ! k) \<noteq> Some tag"
          proof (cases "k = a")
            case True
            then show ?thesis using item False by simp
          next
            case False
            then show ?thesis using k ih by auto
          qed
        qed
        then show ?thesis using ih by auto
      qed
    qed
  qed
qed


lemma nth_spliceIn:
  "i \<le> length xs \<Longrightarrow>
   spliceIn i items xs ! k =
     (if k < i then xs ! k else if k < i + length items then items ! (k - i)
      else xs ! (k - length items))"
  by (auto simp: spliceIn_def nth_append)

lemma frontmatterEnd_Some_iff:
  "frontmatterEnd L = Some e \<longleftrightarrow>
     0 < e \<and> e < length L \<and> L ! 0 = str ''---'' \<and> L ! e = str ''---''
     \<and> (\<forall>k. 0 < k \<and> k < e \<longrightarrow> L ! k \<noteq> str ''---'')"
proof (cases L)
  case Nil
  then show ?thesis by (simp add: frontmatterEnd_def)
next
  case (Cons l rest)
  show ?thesis
  proof (cases "l = str ''---''")
    case False
    then show ?thesis using Cons by (simp add: frontmatterEnd_def)
  next
    case True
    have a: "frontmatterEnd L = Some e \<longleftrightarrow>
          (\<exists>n. e = Suc n \<and> n < length rest \<and> rest ! n = str ''---''
               \<and> (\<forall>j<n. rest ! j \<noteq> str ''---''))"
      using Cons True by (auto simp: frontmatterEnd_def findIndex_Some_iff)
    have b: "(\<forall>k. 0 < k \<and> k < Suc n \<longrightarrow> L ! k \<noteq> str ''---'') \<longleftrightarrow> (\<forall>j<n. rest ! j \<noteq> str ''---'')" for n
    proof
      assume h: "\<forall>k. 0 < k \<and> k < Suc n \<longrightarrow> L ! k \<noteq> str ''---''"
      show "\<forall>j<n. rest ! j \<noteq> str ''---''"
      proof (intro allI impI)
        fix j assume "j < n"
        then show "rest ! j \<noteq> str ''---''" using h [rule_format, of "Suc j"] Cons by simp
      qed
    next
      assume h: "\<forall>j<n. rest ! j \<noteq> str ''---''"
      show "\<forall>k. 0 < k \<and> k < Suc n \<longrightarrow> L ! k \<noteq> str ''---''"
      proof (intro allI impI)
        fix k assume k: "0 < k \<and> k < Suc n"
        then obtain j where "k = Suc j" by (cases k) auto
        then show "L ! k \<noteq> str ''---''" using h k Cons by simp
      qed
    qed
    show ?thesis
    proof
      assume "frontmatterEnd L = Some e"
      then obtain n where n: "e = Suc n" "n < length rest" "rest ! n = str ''---''"
          "\<forall>j<n. rest ! j \<noteq> str ''---''"
        using a by blast
      then show "0 < e \<and> e < length L \<and> L ! 0 = str ''---'' \<and> L ! e = str ''---''
         \<and> (\<forall>k. 0 < k \<and> k < e \<longrightarrow> L ! k \<noteq> str ''---'')"
        using Cons True b [of n] by simp
    next
      assume h: "0 < e \<and> e < length L \<and> L ! 0 = str ''---'' \<and> L ! e = str ''---''
         \<and> (\<forall>k. 0 < k \<and> k < e \<longrightarrow> L ! k \<noteq> str ''---'')"
      then obtain n where n: "e = Suc n" by (cases e) auto
      then show "frontmatterEnd L = Some e"
        using h a b [of n] Cons by simp
    qed
  qed
qed

lemma findTagsLine_Some_iff:
  assumes "e \<le> length L"
  shows "findTagsLine L e = Some i \<longleftrightarrow>
     0 < i \<and> i < e \<and> L ! i = str ''tags:'' \<and> (\<forall>k. 0 < k \<and> k < i \<longrightarrow> L ! k \<noteq> str ''tags:'')"
proof -
  let ?seg = "take (e - 1) (drop 1 L)"
  have nth: "n < e - 1 \<Longrightarrow> ?seg ! n = L ! Suc n" for n
    using assms by simp
  have len: "length ?seg = e - 1"
    using assms by simp
  have a: "findTagsLine L e = Some i \<longleftrightarrow>
        (\<exists>n. i = Suc n \<and> n < e - 1 \<and> L ! Suc n = str ''tags:''
             \<and> (\<forall>j<n. L ! Suc j \<noteq> str ''tags:''))"
  proof
    assume "findTagsLine L e = Some i"
    then obtain n where n: "i = Suc n" "findIndex (\<lambda>l. l = str ''tags:'') ?seg = Some n"
      by (auto simp: findTagsLine_def)
    then have "n < e - 1" "?seg ! n = str ''tags:''" "\<forall>j<n. ?seg ! j \<noteq> str ''tags:''"
      using len by (auto simp: findIndex_Some_iff)
    then show "\<exists>n. i = Suc n \<and> n < e - 1 \<and> L ! Suc n = str ''tags:''
             \<and> (\<forall>j<n. L ! Suc j \<noteq> str ''tags:'')"
      using n(1) nth by (intro exI [of _ n]) auto
  next
    assume "\<exists>n. i = Suc n \<and> n < e - 1 \<and> L ! Suc n = str ''tags:''
             \<and> (\<forall>j<n. L ! Suc j \<noteq> str ''tags:'')"
    then obtain n where n: "i = Suc n" "n < e - 1" "L ! Suc n = str ''tags:''"
        "\<forall>j<n. L ! Suc j \<noteq> str ''tags:''"
      by blast
    have "findIndex (\<lambda>l. l = str ''tags:'') ?seg = Some n"
      unfolding findIndex_Some_iff using n len nth by auto
    then show "findTagsLine L e = Some i" using n(1) by (simp add: findTagsLine_def)
  qed
  show ?thesis
  proof
    assume "findTagsLine L e = Some i"
    then obtain n where n: "i = Suc n" "n < e - 1" "L ! Suc n = str ''tags:''"
        "\<forall>j<n. L ! Suc j \<noteq> str ''tags:''"
      using a by blast
    have "\<forall>k. 0 < k \<and> k < i \<longrightarrow> L ! k \<noteq> str ''tags:''"
    proof (intro allI impI)
      fix k assume k: "0 < k \<and> k < i"
      then obtain j where "k = Suc j" by (cases k) auto
      then show "L ! k \<noteq> str ''tags:''" using n k by simp
    qed
    then show "0 < i \<and> i < e \<and> L ! i = str ''tags:'' \<and> (\<forall>k. 0 < k \<and> k < i \<longrightarrow> L ! k \<noteq> str ''tags:'')"
      using n by auto
  next
    assume h: "0 < i \<and> i < e \<and> L ! i = str ''tags:'' \<and> (\<forall>k. 0 < k \<and> k < i \<longrightarrow> L ! k \<noteq> str ''tags:'')"
    then obtain n where n: "i = Suc n" by (cases i) auto
    have "\<forall>j<n. L ! Suc j \<noteq> str ''tags:''"
      using h n by auto
    then show "findTagsLine L e = Some i"
      using a h n by auto
  qed
qed

lemma findTagsLine_None_iff:
  assumes "e \<le> length L"
  shows "findTagsLine L e = None \<longleftrightarrow> (\<forall>k. 0 < k \<and> k < e \<longrightarrow> L ! k \<noteq> str ''tags:'')"
proof -
  let ?seg = "take (e - 1) (drop 1 L)"
  have len: "length ?seg = e - 1"
    using assms by simp
  have "findTagsLine L e = None \<longleftrightarrow> (\<forall>n < e - 1. ?seg ! n \<noteq> str ''tags:'')"
    using len by (auto simp: findTagsLine_def findIndex_None_iff in_set_conv_nth)
  also have "\<dots> \<longleftrightarrow> (\<forall>n < e - 1. L ! Suc n \<noteq> str ''tags:'')"
    using assms by simp
  also have "\<dots> \<longleftrightarrow> (\<forall>k. 0 < k \<and> k < e \<longrightarrow> L ! k \<noteq> str ''tags:'')"
  proof
    assume h: "\<forall>n < e - 1. L ! Suc n \<noteq> str ''tags:''"
    show "\<forall>k. 0 < k \<and> k < e \<longrightarrow> L ! k \<noteq> str ''tags:''"
    proof (intro allI impI)
      fix k assume k: "0 < k \<and> k < e"
      then obtain j where "k = Suc j" by (cases k) auto
      then show "L ! k \<noteq> str ''tags:''" using h k by auto
    qed
  next
    assume h: "\<forall>k. 0 < k \<and> k < e \<longrightarrow> L ! k \<noteq> str ''tags:''"
    then show "\<forall>n < e - 1. L ! Suc n \<noteq> str ''tags:''" by auto
  qed
  finally show ?thesis .
qed


lemma tagItem_facts:
  assumes "tag \<noteq> []" and "list_all (\<lambda>c. \<not> isLineTerminator c) tag"
  shows "matchesListItem (str ''  - '' @ tag)"
    and "listItemValue (str ''  - '' @ tag) = Some tag"
    and "LF \<notin> set (str ''  - '' @ tag)"
    and "dropCR (str ''  - '' @ tag) = str ''  - '' @ tag"
    and "str ''  - '' @ tag \<noteq> str ''---''"
    and "str ''  - '' @ tag \<noteq> str ''tags:''"
proof -
  have ws: "isWS 0x20" by (simp add: isWS_def)
  show "matchesListItem (str ''  - '' @ tag)"
    using ws by (simp add: matchesListItem_def str_def)
  show "listItemValue (str ''  - '' @ tag) = Some tag"
    using ws assms by (simp add: listItemValue_def str_def)
  have nt: "\<forall>c \<in> set tag. c \<noteq> LF \<and> c \<noteq> CR"
    using assms(2) by (auto simp: list_all_iff isLineTerminator_def LF_def CR_def)
  then show "LF \<notin> set (str ''  - '' @ tag)"
    by (auto simp: str_def LF_def)
  have "last (str ''  - '' @ tag) = last tag"
    using assms(1) by simp
  moreover have "last tag \<noteq> CR"
    using nt assms(1) last_in_set by blast
  ultimately show "dropCR (str ''  - '' @ tag) = str ''  - '' @ tag"
    by (simp add: dropCR_def)
  show "str ''  - '' @ tag \<noteq> str ''---''"
    by (simp add: str_def)
  show "str ''  - '' @ tag \<noteq> str ''tags:''"
    by (simp add: str_def)
qed

lemma addTag_note_reread:
  assumes clean: "\<forall>l \<in> set M. LF \<notin> set l \<and> dropCR l = l" and ne: "M \<noteq> []"
  shows "splitLines (joinLines M) = M"
  using splitLines_joinLines [OF ne] reread_id [OF ne] clean by simp

text \<open>
  The note branch of the tag addition looks for the tag among the items of \<^verbatim>\<open>tags:\<close>
  before it inserts it: for a tag that is not empty and holds no line terminator, and a
  file none of whose lines ends in a stray carriage return, adding the tag twice gives
  the text that adding it once gives.
\<close>

lemma addTag_note_idem:
  assumes t1: "tag \<noteq> []" and t2: "list_all (\<lambda>c. \<not> isLineTerminator c) tag"
    and d: "list_all (\<lambda>l. dropCR l = l) (splitLines doc)"
  shows "\<exists>d1. addTag_note tag doc = Inr d1 \<and> addTag_note tag d1 = Inr d1"
proof (cases "frontmatterEnd (splitLines doc)")
  case None
  then show ?thesis by (simp add: addTag_note_def)
next
  case (Some e)
  let ?L = "splitLines doc"
  let ?item = "str ''  - '' @ tag"
  note item = tagItem_facts [OF t1 t2]
  have fm: "0 < e" "e < length ?L" "?L ! 0 = str ''---''" "?L ! e = str ''---''"
      "\<forall>k. 0 < k \<and> k < e \<longrightarrow> ?L ! k \<noteq> str ''---''"
    using Some by (auto simp: frontmatterEnd_Some_iff)
  have cleanL: "\<forall>l \<in> set ?L. LF \<notin> set l \<and> dropCR l = l"
    using d splitLines_noLF by (auto simp: list_all_iff)
  have tagsLine: "LF \<notin> set (str ''tags:'')" "dropCR (str ''tags:'') = str ''tags:''"
      "str ''tags:'' \<noteq> str ''---''"
    by (simp_all add: str_def LF_def dropCR_def CR_def)
  show ?thesis
  proof (cases "findTagsLine ?L e")
    case None
    let ?M = "spliceIn e [str ''tags:'', ?item] ?L"
    have first: "addTag_note tag doc = Inr (joinLines ?M)"
      using Some None by (simp add: addTag_note_def)
    have cleanM: "\<forall>l \<in> set ?M. LF \<notin> set l \<and> dropCR l = l"
      using cleanL item(3,4) tagsLine by (auto simp: set_spliceIn)
    have Mne: "?M \<noteq> []" by (simp add: spliceIn_def)
    have rr: "splitLines (joinLines ?M) = ?M"
      using addTag_note_reread [OF cleanM Mne] .
    have el: "e \<le> length ?L" using fm by simp
    have nth: "?M ! k = (if k < e then ?L ! k else if k < e + 2 then [str ''tags:'', ?item] ! (k - e)
                 else ?L ! (k - 2))" for k
      using nth_spliceIn [OF el, of "[str ''tags:'', ?item]" k] by (simp add: numeral_2_eq_2)
    have noTags: "\<forall>k. 0 < k \<and> k < e \<longrightarrow> ?L ! k \<noteq> str ''tags:''"
      using None findTagsLine_None_iff [OF el] by simp
    have fm2: "frontmatterEnd ?M = Some (e + 2)"
    proof -
      have "\<forall>k. 0 < k \<and> k < e + 2 \<longrightarrow> ?M ! k \<noteq> str ''---''"
      proof (intro allI impI)
        fix k assume k: "0 < k \<and> k < e + 2"
        consider "k < e" | "k = e" | "k = e + 1" using k by linarith
        then show "?M ! k \<noteq> str ''---''"
        proof cases
          case 1
          then show ?thesis using nth [of k] fm(5) k by simp
        next
          case 2
          then show ?thesis using nth [of k] tagsLine(3) by simp
        next
          case 3
          then show ?thesis using nth [of k] item(5) by simp
        qed
      qed
      moreover have "?M ! 0 = str ''---''" using nth [of 0] fm by simp
      moreover have "?M ! (e + 2) = str ''---''" using nth [of "e + 2"] fm by simp
      moreover have "e + 2 < length ?M" using fm by (simp add: length_spliceIn)
      ultimately show ?thesis unfolding frontmatterEnd_Some_iff by simp
    qed
    have tl2: "findTagsLine ?M (e + 2) = Some e"
    proof -
      have le: "e + 2 \<le> length ?M" using fm by (simp add: length_spliceIn)
      have "?M ! e = str ''tags:''" using nth [of e] by simp
      moreover have "\<forall>k. 0 < k \<and> k < e \<longrightarrow> ?M ! k \<noteq> str ''tags:''"
        using nth noTags by simp
      ultimately show ?thesis
        unfolding findTagsLine_Some_iff [OF le] using fm(1) by simp
    qed
    have at: "?M ! Suc e = ?item" using nth [of "Suc e"] by simp
    have loop: "addTagLoop tag ?M (Suc e) (e + 2) = Inr None"
      using at item(1,2) fm by (intro addTagLoop_found) (simp_all add: length_spliceIn)
    have "addTag_note tag (joinLines ?M) = Inr (joinLines ?M)"
      using rr fm2 tl2 loop by (simp add: addTag_note_def)
    then show ?thesis using first by simp
  next
    case (Some i)
    have el: "e \<le> length ?L" using fm by simp
    have ti: "0 < i" "i < e" "?L ! i = str ''tags:''"
        "\<forall>k. 0 < k \<and> k < i \<longrightarrow> ?L ! k \<noteq> str ''tags:''"
      using Some findTagsLine_Some_iff [OF el] by auto
    obtain r where r: "addTagLoop tag ?L (Suc i) e = Inr r"
      using addTagLoop_ok [OF el] by blast
    show ?thesis
    proof (cases r)
      case None
      then have "addTag_note tag doc = Inr doc"
        using \<open>frontmatterEnd ?L = Some e\<close> Some r by (simp add: addTag_note_def)
      then show ?thesis by simp
    next
      case (Some j)
      have js: "Suc i \<le> j" "j \<le> e"
          "\<forall>k. Suc i \<le> k \<and> k < j \<longrightarrow> matchesListItem (?L ! k) \<and> listItemValue (?L ! k) \<noteq> Some tag"
        using addTagLoop_Some [of tag ?L "Suc i" e j] r Some ti(2) el by auto
      let ?M = "spliceIn j [?item] ?L"
      have first: "addTag_note tag doc = Inr (joinLines ?M)"
        using \<open>frontmatterEnd ?L = Some e\<close> \<open>findTagsLine ?L e = Some i\<close> r Some
        by (simp add: addTag_note_def)
      have cleanM: "\<forall>l \<in> set ?M. LF \<notin> set l \<and> dropCR l = l"
        using cleanL item(3,4) by (auto simp: set_spliceIn)
      have Mne: "?M \<noteq> []" by (simp add: spliceIn_def)
      have rr: "splitLines (joinLines ?M) = ?M"
        using addTag_note_reread [OF cleanM Mne] .
      have jl: "j \<le> length ?L" using js(2) el by simp
      have nth: "?M ! k = (if k < j then ?L ! k else if k < j + 1 then ?item else ?L ! (k - 1))" for k
        using nth_spliceIn [OF jl, of "[?item]" k] by simp
      have fm2: "frontmatterEnd ?M = Some (e + 1)"
      proof -
        have "\<forall>k. 0 < k \<and> k < e + 1 \<longrightarrow> ?M ! k \<noteq> str ''---''"
        proof (intro allI impI)
          fix k assume k: "0 < k \<and> k < e + 1"
          consider "k < j" | "k = j" | "j < k" by linarith
          then show "?M ! k \<noteq> str ''---''"
          proof cases
            case 1
            then show ?thesis using nth [of k] fm(5) k js(2) by simp
          next
            case 2
            then show ?thesis using nth [of k] item(5) by simp
          next
            case 3
            then have "0 < k - 1 \<and> k - 1 < e" using k js(1) by linarith
            then show ?thesis using nth [of k] fm(5) 3 by simp
          qed
        qed
        moreover have "?M ! 0 = str ''---''" using nth [of 0] fm js(1) by simp
        moreover have "?M ! (e + 1) = str ''---''" using nth [of "e + 1"] fm js(2) by simp
        moreover have "e + 1 < length ?M" using fm by (simp add: length_spliceIn)
        ultimately show ?thesis unfolding frontmatterEnd_Some_iff by simp
      qed
      have tl2: "findTagsLine ?M (e + 1) = Some i"
      proof -
        have le: "e + 1 \<le> length ?M" using fm by (simp add: length_spliceIn)
        have "?M ! i = str ''tags:''" using nth [of i] js(1) ti(3) by simp
        moreover have "\<forall>k. 0 < k \<and> k < i \<longrightarrow> ?M ! k \<noteq> str ''tags:''"
          using nth js(1) ti(4) by simp
        ultimately show ?thesis
          unfolding findTagsLine_Some_iff [OF le] using ti(1,2) by simp
      qed
      have skip: "addTagLoop tag ?M (Suc i) (e + 1) = addTagLoop tag ?M j (e + 1)"
      proof (rule addTagLoop_skip)
        show "Suc i \<le> j" using js(1) .
        show "j \<le> e + 1" using js(2) by simp
        show "e + 1 \<le> length ?M" using fm by (simp add: length_spliceIn)
        fix k assume "Suc i \<le> k" "k < j"
        then show "matchesListItem (?M ! k) \<and> listItemValue (?M ! k) \<noteq> Some tag"
          using nth [of k] js(3) by simp
      qed
      have found: "addTagLoop tag ?M j (e + 1) = Inr None"
        using nth [of j] item(1,2) js(2) fm by (intro addTagLoop_found) (simp_all add: length_spliceIn)
      have "addTag_note tag (joinLines ?M) = Inr (joinLines ?M)"
        using rr fm2 tl2 skip found by (simp add: addTag_note_def)
      then show ?thesis using first by simp
    qed
  qed
qed

text \<open>
  C1. The inline branch of the tag addition appends the tag without looking for it on
  the line. For the task \<open>foo\<close> on the line \<^verbatim>\<open>- [ ] foo\<close> and the tag \<open>x\<close>, the first
  addition gives \<^verbatim>\<open>- [ ] foo #x\<close> and the second \<^verbatim>\<open>- [ ] foo #x #x\<close>, whatever the
  regular expressions of the fallback lookup are.
\<close>

theorem addTag_inline_appends_duplicate:
  "addTag_inline rx (str ''T1'') (str ''foo'') (str ''x'') (str ''- [ ] foo'')
     = Inr (str ''- [ ] foo #x'')
   \<and> addTag_inline rx (str ''T1'') (str ''foo'') (str ''x'') (str ''- [ ] foo #x'')
     = Inr (str ''- [ ] foo #x #x'')
   \<and> str ''- [ ] foo #x #x'' \<noteq> str ''- [ ] foo #x''"
  by code_simp

end
